theory Spec2Isabelle
  imports Main "HOL-Library.Word"
begin

section \<open>ESP32 power-button simulator: debouncer, burst classifier, dispatcher\<close>

text \<open>
  The repository holds three Arduino sketches that share their debouncing code:
  \<^item> the burst-aware sketch (\<^verbatim>\<open>chris.ino\<close>, lines 1-190),
  \<^item> the state-verified sketch (\<^verbatim>\<open>chris.ino\<close>, lines 192-339),
  \<^item> the basic sketch (\<^verbatim>\<open>unnamed/part_000\<close>).
  The sketches are embedded as state transformers on one record that holds the global
  variables of the sketch, the pins, the millisecond clock and the list of effects the
  sketch has performed so far (pin operations, delays and serial output, in order).
\<close>

subsection \<open>Machine types and the hardware interface\<close>

text \<open>
  On the ESP32 \<^verbatim>\<open>unsigned long\<close> and \<^verbatim>\<open>int\<close> are 32 bits wide. Timestamps
  are words compared unsigned (differences wrap around); the counter is a word read
  with \<open>sint\<close>, so its comparisons are signed and \<^verbatim>\<open>rapidChangeCount++\<close> wraps
  around as the hardware does (no reachable state comes near the overflow, see the
  counter bound below).

  The record \<open>sys\<close> holds the millisecond clock, the mode and the output level of every
  pin, the effects performed so far, and the global variables of the sketches. The
  state-verified sketch calls its last raw reading \<^verbatim>\<open>lastTriggerReading\<close>; it is the
  field \<open>lastReading\<close> here.
\<close>

type_synonym ulong = "32 word"
type_synonym cint = "32 word"

datatype pin_mode = INPUT | OUTPUT | INPUT_PULLUP

datatype effect =
    SerialBegin int
  | SerialPrint string
  | SerialPrintln string
  | SerialPrintlnInt int
  | PinMode int pin_mode
  | DigitalWrite int bool
  | Delay ulong

record sys =
  clock :: ulong
  pin_modes :: "int \<Rightarrow> pin_mode"
  pin_levels :: "int \<Rightarrow> bool"
  trace :: "effect list"
  lastReading :: bool
  stableTriggerState :: bool
  lastChangeTime :: ulong
  rapidChangeCount :: cint
  firstChangeInWindow :: ulong

text \<open>\<open>HIGH\<close> is \<open>True\<close>, \<open>LOW\<close> is \<open>False\<close>.\<close>

definition TRIGGER_PIN :: int where "TRIGGER_PIN = 32"
definition POWER_BTN_PIN :: int where "POWER_BTN_PIN = 4"
definition LED_TRIGGER_STATE :: int where "LED_TRIGGER_STATE = 2"
definition LED_PRESS_ACTIVE :: int where "LED_PRESS_ACTIVE = 18"
definition POWER_LED_PIN :: int where "POWER_LED_PIN = 19"

definition DEBOUNCE_MS :: ulong where "DEBOUNCE_MS = 50"
definition RAPID_CHANGE_WINDOW_MS :: ulong where "RAPID_CHANGE_WINDOW_MS = 2000"
definition MIN_RAPID_CHANGES_TRIGGER :: cint where "MIN_RAPID_CHANGES_TRIGGER = 3"
definition MAX_RAPID_CHANGES_TRIGGER :: cint where "MAX_RAPID_CHANGES_TRIGGER = 6"

text \<open>
  The Arduino primitives. \<open>millis\<close> reads the clock; \<open>delay\<close> is the only operation
  that takes time and advances the clock by exactly its argument (every other operation
  is instantaneous). The value of \<^verbatim>\<open>digitalRead\<close> is an argument of the function
  that reads the pin.
\<close>

definition millis :: "sys \<Rightarrow> ulong" where
  "millis s = clock s"

definition delay :: "ulong \<Rightarrow> sys \<Rightarrow> sys" where
  "delay ms s = s\<lparr>clock := clock s + ms, trace := trace s @ [Delay ms]\<rparr>"

definition pinMode :: "int \<Rightarrow> pin_mode \<Rightarrow> sys \<Rightarrow> sys" where
  "pinMode p m s = s\<lparr>pin_modes := (pin_modes s)(p := m), trace := trace s @ [PinMode p m]\<rparr>"

definition digitalWrite :: "int \<Rightarrow> bool \<Rightarrow> sys \<Rightarrow> sys" where
  "digitalWrite p v s =
     s\<lparr>pin_levels := (pin_levels s)(p := v), trace := trace s @ [DigitalWrite p v]\<rparr>"

definition Serial_begin :: "int \<Rightarrow> sys \<Rightarrow> sys" where
  "Serial_begin baud s = s\<lparr>trace := trace s @ [SerialBegin baud]\<rparr>"

definition Serial_print :: "string \<Rightarrow> sys \<Rightarrow> sys" where
  "Serial_print str s = s\<lparr>trace := trace s @ [SerialPrint str]\<rparr>"

definition Serial_println :: "string \<Rightarrow> sys \<Rightarrow> sys" where
  "Serial_println str s = s\<lparr>trace := trace s @ [SerialPrintln str]\<rparr>"

definition Serial_println_int :: "int \<Rightarrow> sys \<Rightarrow> sys" where
  "Serial_println_int n s = s\<lparr>trace := trace s @ [SerialPrintlnInt n]\<rparr>"

definition level_name :: "bool \<Rightarrow> string" where
  "level_name v = (if v then ''HIGH'' else ''LOW'')"

subsection \<open>Output actions\<close>

text \<open>\<^verbatim>\<open>simulatePowerButtonPress\<close>: the same text in all three sketches.\<close>

definition simulatePowerButtonPress :: "sys \<Rightarrow> sys" where
  "simulatePowerButtonPress s =
     (let s = Serial_println ''Simulating power button press...'' s;
          s = digitalWrite LED_PRESS_ACTIVE True s;
          s = pinMode POWER_BTN_PIN OUTPUT s;
          s = digitalWrite POWER_BTN_PIN False s;
          s = delay 200 s;
          s = pinMode POWER_BTN_PIN INPUT s;
          s = digitalWrite LED_PRESS_ACTIVE False s
      in Serial_println ''Released power button.'' s)"

text \<open>
  The waiting loop of \<^verbatim>\<open>simulateHardShutdown\<close>:
  \<^verbatim>\<open>while (millis() - shutdownStart < 4000) { delay(50); }\<close>
\<close>

function simulateHardShutdown_wait :: "ulong \<Rightarrow> sys \<Rightarrow> sys" where
  "simulateHardShutdown_wait shutdownStart s =
     (if millis s - shutdownStart < 4000
      then simulateHardShutdown_wait shutdownStart (delay 50 s)
      else s)"
  by pat_completeness auto

termination
proof (relation "measure (\<lambda>(st, s). 4000 - unat (clock s - st))")
  show "wf (measure (\<lambda>(st, s). 4000 - unat (clock s - st)))" by simp
next
  fix shutdownStart :: ulong and s :: sys
  assume running: "millis s - shutdownStart < 4000"
  define x where "x = clock s - shutdownStart"
  have step: "clock (delay 50 s) - shutdownStart = x + 50"
    by (simp add: delay_def x_def)
  from running have "unat x < 4000"
    by (simp add: millis_def x_def word_less_nat_alt)
  moreover from this have "unat (x + 50) = unat x + 50"
    by (simp add: unat_word_ariths)
  ultimately have "4000 - unat (x + 50) < 4000 - unat x"
    by simp
  then show "((shutdownStart, delay 50 s), (shutdownStart, s))
      \<in> measure (\<lambda>(st, s). 4000 - unat (clock s - st))"
    unfolding in_measure prod.case step x_def .
qed

declare simulateHardShutdown_wait.simps [simp del]

definition simulateHardShutdown :: "sys \<Rightarrow> sys" where
  "simulateHardShutdown s =
     (let s = digitalWrite LED_PRESS_ACTIVE True s;
          s = pinMode POWER_BTN_PIN OUTPUT s;
          s = digitalWrite POWER_BTN_PIN False s;
          shutdownStart = millis s;
          s = simulateHardShutdown_wait shutdownStart s;
          s = pinMode POWER_BTN_PIN INPUT s;
          s = digitalWrite LED_PRESS_ACTIVE False s
      in Serial_println ''Hard shutdown complete.'' s)"

subsection \<open>Burst classifier (burst-aware sketch)\<close>

definition trackRapidChanges :: "sys \<Rightarrow> sys" where
  "trackRapidChanges s =
     (let now = millis s;
          s = (if now - firstChangeInWindow s > RAPID_CHANGE_WINDOW_MS
               then s\<lparr>rapidChangeCount := 1, firstChangeInWindow := now\<rparr>
               else s\<lparr>rapidChangeCount := rapidChangeCount s + 1\<rparr>);
          s = Serial_print ''Rapid changes so far: '' s;
          s = Serial_println_int (sint (rapidChangeCount s)) s
      in if sint (rapidChangeCount s) \<ge> sint MIN_RAPID_CHANGES_TRIGGER
            \<and> sint (rapidChangeCount s) \<le> sint MAX_RAPID_CHANGES_TRIGGER
         then (let s = Serial_println ''TRIGGERING HARD SHUTDOWN (rapid toggles detected)...'' s;
                   s = simulateHardShutdown s
               in s\<lparr>rapidChangeCount := 0\<rparr>)
         else s)"

subsection \<open>The three polling loops\<close>

text \<open>\<^verbatim>\<open>setup\<close> (here \<open>sketch_setup\<close>: the source's name is an Isabelle
  keyword) and \<^verbatim>\<open>loop\<close> of the burst-aware sketch; the argument is the level read
  from \<^verbatim>\<open>TRIGGER_PIN\<close>.\<close>

definition sketch_setup :: "bool \<Rightarrow> sys \<Rightarrow> sys" where
  "sketch_setup reading s =
     (let s = Serial_begin 115200 s;
          s = delay 1000 s;
          s = Serial_println
                ''=== ESP32 Power Button Simulator (Debouncing + LEDs + Rapid Switching) ==='' s;
          s = pinMode TRIGGER_PIN INPUT_PULLUP s;
          s = pinMode POWER_BTN_PIN INPUT s;
          s = pinMode LED_TRIGGER_STATE OUTPUT s;
          s = pinMode LED_PRESS_ACTIVE OUTPUT s;
          s = digitalWrite LED_TRIGGER_STATE False s;
          s = digitalWrite LED_PRESS_ACTIVE False s;
          s = s\<lparr>lastReading := reading\<rparr>;
          s = s\<lparr>stableTriggerState := lastReading s\<rparr>;
          s = s\<lparr>lastChangeTime := millis s\<rparr>
      in digitalWrite LED_TRIGGER_STATE (stableTriggerState s) s)"

definition loop :: "bool \<Rightarrow> sys \<Rightarrow> sys" where
  "loop currentReading s =
     (let now = millis s;
          s = (if currentReading \<noteq> lastReading s
               then s\<lparr>lastChangeTime := now, lastReading := currentReading\<rparr>
               else s);
          s = (if now - lastChangeTime s > DEBOUNCE_MS
               then (if currentReading \<noteq> stableTriggerState s
                     then (let s = s\<lparr>stableTriggerState := currentReading\<rparr>;
                               s = Serial_print ''New stable trigger state: '' s;
                               s = Serial_println (level_name (stableTriggerState s)) s;
                               s = digitalWrite LED_TRIGGER_STATE (stableTriggerState s) s;
                               s = trackRapidChanges s
                           in simulatePowerButtonPress s)
                     else s)
               else s)
      in delay 10 s)"

text \<open>\<^verbatim>\<open>loop\<close> of the basic sketch (\<^verbatim>\<open>unnamed/part_000\<close>).\<close>

definition loop_basic :: "bool \<Rightarrow> sys \<Rightarrow> sys" where
  "loop_basic currentReading s =
     (let now = millis s;
          s = (if currentReading \<noteq> lastReading s
               then s\<lparr>lastChangeTime := now, lastReading := currentReading\<rparr>
               else s);
          s = (if now - lastChangeTime s > DEBOUNCE_MS
               then (if currentReading \<noteq> stableTriggerState s
                     then (let s = s\<lparr>stableTriggerState := currentReading\<rparr>;
                               s = Serial_print ''New stable trigger state: '' s;
                               s = Serial_println (level_name (stableTriggerState s)) s;
                               s = digitalWrite LED_TRIGGER_STATE (stableTriggerState s) s
                           in simulatePowerButtonPress s)
                     else s)
               else s)
      in delay 10 s)"

text \<open>
  \<^verbatim>\<open>handleTriggerChange\<close> and \<^verbatim>\<open>loop\<close> of the state-verified sketch; the
  second argument is the level read from \<^verbatim>\<open>POWER_LED_PIN\<close> when the stable state
  changes.
\<close>

definition handleTriggerChange :: "bool \<Rightarrow> bool \<Rightarrow> sys \<Rightarrow> sys" where
  "handleTriggerChange newTriggerState powerLEDState s =
     (if newTriggerState = True
      then (if \<not> powerLEDState
            then simulatePowerButtonPress s
            else Serial_println ''PC is already ON, no action needed.'' s)
      else (if powerLEDState
            then simulatePowerButtonPress s
            else Serial_println ''PC is already OFF, no action needed.'' s))"

definition loop_verified :: "bool \<Rightarrow> bool \<Rightarrow> sys \<Rightarrow> sys" where
  "loop_verified currentTriggerReading powerLEDState s =
     (let now = millis s;
          s = (if currentTriggerReading \<noteq> lastReading s
               then s\<lparr>lastChangeTime := now, lastReading := currentTriggerReading\<rparr>
               else s);
          s = (if now - lastChangeTime s > DEBOUNCE_MS
                  \<and> currentTriggerReading \<noteq> stableTriggerState s
               then (let s = s\<lparr>stableTriggerState := currentTriggerReading\<rparr>;
                         s = Serial_print ''New stable trigger state: '' s;
                         s = Serial_println (level_name (stableTriggerState s)) s;
                         s = digitalWrite LED_TRIGGER_STATE (stableTriggerState s) s
                     in handleTriggerChange (stableTriggerState s) powerLEDState s)
               else s)
      in delay 10 s)"

subsection \<open>Runs and observations\<close>

text \<open>
  The static initialisers of the sketch, with the clock at 0, every pin an input and
  nothing done yet.
\<close>

definition boot :: sys where
  "boot = \<lparr>clock = 0, pin_modes = (\<lambda>_. INPUT), pin_levels = (\<lambda>_. False), trace = [],
           lastReading = True, stableTriggerState = True, lastChangeTime = 0,
           rapidChangeCount = 0, firstChangeInWindow = 0\<rparr>"

text \<open>A state right after power-on: the globals hold their initialisers, nothing has
  been done; clock and pins are whatever the hardware gives.\<close>

definition power_on :: "sys \<Rightarrow> bool" where
  "power_on s =
     (lastReading s = True \<and> stableTriggerState s = True \<and> lastChangeTime s = 0
      \<and> rapidChangeCount s = 0 \<and> firstChangeInWindow s = 0 \<and> trace s = [])"

text \<open>The effects performed between an earlier state and a later one.\<close>

definition new_effects :: "sys \<Rightarrow> sys \<Rightarrow> effect list" where
  "new_effects s s' = drop (length (trace s)) (trace s')"

text \<open>The pin operations and delays of a list of effects (serial output left out).\<close>

fun is_serial :: "effect \<Rightarrow> bool" where
  "is_serial (SerialBegin _) = True"
| "is_serial (SerialPrint _) = True"
| "is_serial (SerialPrintln _) = True"
| "is_serial (SerialPrintlnInt _) = True"
| "is_serial (PinMode _ _) = False"
| "is_serial (DigitalWrite _ _) = False"
| "is_serial (Delay _) = False"

definition hardware :: "effect list \<Rightarrow> effect list" where
  "hardware es = filter (\<lambda>e. \<not> is_serial e) es"

text \<open>
  A stable-change event is the commit branch of \<^verbatim>\<open>loop\<close>; every commit, and
  nothing else in \<^verbatim>\<open>loop\<close>, writes the new stable level to
  \<^verbatim>\<open>LED_TRIGGER_STATE\<close>. \<open>stable_events\<close> lists the levels so written.
\<close>

fun stable_event :: "effect \<Rightarrow> bool list" where
  "stable_event (DigitalWrite p v) = (if p = LED_TRIGGER_STATE then [v] else [])"
| "stable_event _ = []"

definition stable_events :: "effect list \<Rightarrow> bool list" where
  "stable_events es = concat (map stable_event es)"

text \<open>The counter values printed after \<^verbatim>\<open>Rapid changes so far:\<close>, that is the
  value of \<^verbatim>\<open>rapidChangeCount\<close> at the threshold test of each call.\<close>

fun printed_count :: "effect \<Rightarrow> int list" where
  "printed_count (SerialPrintlnInt n) = [n]"
| "printed_count _ = []"

definition printed_counts :: "effect list \<Rightarrow> int list" where
  "printed_counts es = concat (map printed_count es)"

text \<open>
  The effects of one output action that holds the line by the delays \<open>hold\<close>:
  indicator on, line driven LOW, hold, line released, indicator off.
\<close>

definition action_sequence :: "effect list \<Rightarrow> effect list" where
  "action_sequence hold =
     [DigitalWrite LED_PRESS_ACTIVE True, PinMode POWER_BTN_PIN OUTPUT,
      DigitalWrite POWER_BTN_PIN False] @ hold @
     [PinMode POWER_BTN_PIN INPUT, DigitalWrite LED_PRESS_ACTIVE False]"

fun held_ms :: "effect list \<Rightarrow> nat" where
  "held_ms [] = 0"
| "held_ms (Delay d # es) = unat d + held_ms es"
| "held_ms (_ # es) = held_ms es"

text \<open>
  Whether the power-button line is ever driven while the press-active indicator is off,
  replaying a list of effects from the pair (line driven, indicator on).
\<close>

fun line_step :: "effect \<Rightarrow> bool \<times> bool \<Rightarrow> bool \<times> bool" where
  "line_step (PinMode p m) (driven, active) =
     (if p = POWER_BTN_PIN then (m = OUTPUT, active) else (driven, active))"
| "line_step (DigitalWrite p v) (driven, active) =
     (if p = LED_PRESS_ACTIVE then (driven, v) else (driven, active))"
| "line_step _ st = st"

fun line_safe :: "bool \<times> bool \<Rightarrow> effect list \<Rightarrow> bool" where
  "line_safe (driven, active) [] = (driven \<longrightarrow> active)"
| "line_safe (driven, active) (e # es) =
     ((driven \<longrightarrow> active) \<and> line_safe (line_step e (driven, active)) es)"

text \<open>The pair (line driven, indicator on) after a list of effects.\<close>

fun line_run :: "effect list \<Rightarrow> bool \<times> bool \<Rightarrow> bool \<times> bool" where
  "line_run [] st = st"
| "line_run (e # es) st = line_run es (line_step e st)"

text \<open>The sketch run on the readings of successive polling ticks; only \<open>delay\<close>
  advances the clock.\<close>

fun run_loop :: "bool list \<Rightarrow> sys \<Rightarrow> sys" where
  "run_loop [] s = s"
| "run_loop (r # rs) s = run_loop rs (loop r s)"

text \<open>
  Polling ticks at given times: each tick is a pair of the value of \<^verbatim>\<open>millis()\<close> at
  the start of the tick and the level read. \<open>tick\<close> is \<open>loop\<close> or \<open>loop_basic\<close>.
\<close>

fun run_ticks :: "(bool \<Rightarrow> sys \<Rightarrow> sys) \<Rightarrow> (nat \<times> bool) list \<Rightarrow> sys \<Rightarrow> sys" where
  "run_ticks tick [] s = s"
| "run_ticks tick ((t, r) # ticks) s = run_ticks tick ticks (tick r (s\<lparr>clock := of_nat t\<rparr>))"

fun sampled_every :: "nat \<Rightarrow> nat \<Rightarrow> bool list \<Rightarrow> (nat \<times> bool) list" where
  "sampled_every period t [] = []"
| "sampled_every period t (r # rs) = (t, r) # sampled_every period (t + period) rs"

text \<open>The times of the ticks whose reading differs from the reading before
  (\<open>prev\<close> for the first tick): the raw-level transitions the sketch can see.\<close>

fun edges :: "bool \<Rightarrow> (nat \<times> bool) list \<Rightarrow> nat list" where
  "edges prev [] = []"
| "edges prev ((t, r) # ticks) = (if r \<noteq> prev then [t] else []) @ edges r ticks"

text \<open>All transitions within one debounce interval of each other, and the raw level
  after the last tick (\<open>prev\<close> if there is no tick).\<close>

definition within_debounce_interval :: "nat list \<Rightarrow> bool" where
  "within_debounce_interval es = (\<forall>a \<in> set es. \<forall>b \<in> set es. b \<le> a + unat DEBOUNCE_MS)"

definition level_at_end :: "bool \<Rightarrow> (nat \<times> bool) list \<Rightarrow> bool" where
  "level_at_end prev ticks = last (prev # map snd ticks)"

text \<open>Scenario A of the specification: the raw samples, and the debouncer initialised
  at time 0 with the level LOW, as \<^verbatim>\<open>setup\<close> initialises it from the first reading.\<close>

definition scenario_A :: "bool list" where
  "scenario_A = [False, False, True, False, True, True, True]"

definition scenario_A_start :: sys where
  "scenario_A_start = boot\<lparr>lastReading := False, stableTriggerState := False\<rparr>"

text \<open>The burst classifier fed stable-change events at given times.\<close>

fun feed :: "nat list \<Rightarrow> sys \<Rightarrow> sys" where
  "feed [] s = s"
| "feed (t # ts) s = feed ts (trackRapidChanges (s\<lparr>clock := of_nat t\<rparr>))"

text \<open>\<^verbatim>\<open>trackRapidChanges\<close> with the upper threshold as a parameter instead of
  \<^verbatim>\<open>MAX_RAPID_CHANGES_TRIGGER\<close>; everything else as in the source.\<close>

definition trackRapidChanges_upto :: "cint \<Rightarrow> sys \<Rightarrow> sys" where
  "trackRapidChanges_upto mx s =
     (let now = millis s;
          s = (if now - firstChangeInWindow s > RAPID_CHANGE_WINDOW_MS
               then s\<lparr>rapidChangeCount := 1, firstChangeInWindow := now\<rparr>
               else s\<lparr>rapidChangeCount := rapidChangeCount s + 1\<rparr>);
          s = Serial_print ''Rapid changes so far: '' s;
          s = Serial_println_int (sint (rapidChangeCount s)) s
      in if sint (rapidChangeCount s) \<ge> sint MIN_RAPID_CHANGES_TRIGGER
            \<and> sint (rapidChangeCount s) \<le> sint mx
         then (let s = Serial_println ''TRIGGERING HARD SHUTDOWN (rapid toggles detected)...'' s;
                   s = simulateHardShutdown s
               in s\<lparr>rapidChangeCount := 0\<rparr>)
         else s)"

text \<open>
  The states of the burst-aware sketch: \<^verbatim>\<open>setup\<close> after power-on, then any number
  of polling ticks with any readings; between two operations any amount of time may
  pass, and the classifier may also be fed an event directly.
\<close>

inductive reach :: "sys \<Rightarrow> bool" where
  reach_setup: "power_on s \<Longrightarrow> reach (sketch_setup r s)"
| reach_loop: "reach s \<Longrightarrow> reach (loop r s)"
| reach_track: "reach s \<Longrightarrow> reach (trackRapidChanges s)"
| reach_time: "reach s \<Longrightarrow> reach (s\<lparr>clock := t\<rparr>)"

subsection \<open>Names for the tests and the effect lists of the source\<close>

text \<open>The tests of \<^verbatim>\<open>trackRapidChanges\<close>: the window test, the counter after the
  first \<^verbatim>\<open>if\<close>, and the threshold test on it.\<close>

definition expired :: "sys \<Rightarrow> bool" where
  "expired s = (millis s - firstChangeInWindow s > RAPID_CHANGE_WINDOW_MS)"

definition next_count :: "sys \<Rightarrow> cint" where
  "next_count s = (if expired s then 1 else rapidChangeCount s + 1)"

definition burst :: "sys \<Rightarrow> bool" where
  "burst s = (sint (next_count s) \<ge> sint MIN_RAPID_CHANGES_TRIGGER
              \<and> sint (next_count s) \<le> sint MAX_RAPID_CHANGES_TRIGGER)"

text \<open>The commit test of \<^verbatim>\<open>loop\<close> in terms of the state before the tick (a
  reading that differs from the last one restarts the timer, so it cannot commit), and
  the debounce variables after a tick that does not commit.\<close>

definition commits :: "bool \<Rightarrow> sys \<Rightarrow> bool" where
  "commits r s =
     (r = lastReading s \<and> millis s - lastChangeTime s > DEBOUNCE_MS \<and> r \<noteq> stableTriggerState s)"

definition debounced :: "bool \<Rightarrow> sys \<Rightarrow> sys" where
  "debounced r s = s\<lparr>lastReading := r,
      lastChangeTime := (if r \<noteq> lastReading s then millis s else lastChangeTime s)\<rparr>"

text \<open>The state in which \<^verbatim>\<open>loop\<close> calls \<^verbatim>\<open>trackRapidChanges\<close>: the new stable
  state is stored, printed and shown on the LED.\<close>

definition committed :: "bool \<Rightarrow> sys \<Rightarrow> sys" where
  "committed r s = s\<lparr>stableTriggerState := r,
      pin_levels := (pin_levels s)(LED_TRIGGER_STATE := r),
      trace := trace s @ [SerialPrint ''New stable trigger state: '', SerialPrintln (level_name r),
        DigitalWrite LED_TRIGGER_STATE r]\<rparr>"

text \<open>The effects of the source functions, serial output included.\<close>

definition press_trace :: "effect list" where
  "press_trace = SerialPrintln ''Simulating power button press...'' #
     action_sequence [Delay 200] @ [SerialPrintln ''Released power button.'']"

definition shutdown_trace :: "effect list" where
  "shutdown_trace =
     action_sequence (replicate 80 (Delay 50)) @ [SerialPrintln ''Hard shutdown complete.'']"

definition track_trace :: "cint \<Rightarrow> bool \<Rightarrow> effect list" where
  "track_trace c fired =
     [SerialPrint ''Rapid changes so far: '', SerialPrintlnInt (sint c)] @
     (if fired
      then SerialPrintln ''TRIGGERING HARD SHUTDOWN (rapid toggles detected)...'' # shutdown_trace
      else [])"

definition setup_trace :: "bool \<Rightarrow> effect list" where
  "setup_trace r =
     [SerialBegin 115200, Delay 1000,
      SerialPrintln ''=== ESP32 Power Button Simulator (Debouncing + LEDs + Rapid Switching) ==='',
      PinMode TRIGGER_PIN INPUT_PULLUP, PinMode POWER_BTN_PIN INPUT,
      PinMode LED_TRIGGER_STATE OUTPUT, PinMode LED_PRESS_ACTIVE OUTPUT,
      DigitalWrite LED_TRIGGER_STATE False, DigitalWrite LED_PRESS_ACTIVE False,
      DigitalWrite LED_TRIGGER_STATE r]"

definition commit_trace :: "bool \<Rightarrow> effect list" where
  "commit_trace r = [SerialPrint ''New stable trigger state: '', SerialPrintln (level_name r),
     DigitalWrite LED_TRIGGER_STATE r]"

text \<open>What the two polling loops have in common: the debounce variables and the
  stable-change events after one tick.\<close>

definition debounce_step :: "(bool \<Rightarrow> sys \<Rightarrow> sys) \<Rightarrow> bool" where
  "debounce_step tick =
     (\<forall>r s. lastReading (tick r s) = r \<and>
            lastChangeTime (tick r s) = (if r \<noteq> lastReading s then clock s else lastChangeTime s) \<and>
            stableTriggerState (tick r s) = (if commits r s then r else stableTriggerState s) \<and>
            (\<exists>es. trace (tick r s) = trace s @ es \<and>
                  stable_events es = (if commits r s then [r] else [])))"

text \<open>The counter between two calls of \<^verbatim>\<open>trackRapidChanges\<close>.\<close>

definition count_ok :: "sys \<Rightarrow> bool" where
  "count_ok s = (rapidChangeCount s = 0 \<or> rapidChangeCount s = 1 \<or> rapidChangeCount s = 2)"

section \<open>Properties\<close>

lemmas prim_defs = millis_def delay_def pinMode_def digitalWrite_def Serial_begin_def
  Serial_print_def Serial_println_def Serial_println_int_def

lemma wait_steps:
  "unat (clock s - st) + 50 * k = 4000 \<Longrightarrow>
   simulateHardShutdown_wait st s =
     s\<lparr>clock := clock s + 50 * of_nat k, trace := trace s @ replicate k (Delay 50)\<rparr>"
proof (induction k arbitrary: s)
  case 0
  then have "\<not> millis s - st < 4000"
    by (simp add: millis_def word_less_nat_alt)
  then show ?case
    by (simp add: simulateHardShutdown_wait.simps[of st s])
next
  case (Suc k)
  define x where "x = clock s - st"
  from Suc.prems have small: "unat x < 4000"
    by (simp add: x_def)
  then have lt: "millis s - st < 4000"
    by (simp add: millis_def x_def word_less_nat_alt)
  from small have "unat (x + 50) = unat x + 50"
    by (simp add: unat_word_ariths)
  moreover have "clock (delay 50 s) - st = x + 50"
    by (simp add: delay_def x_def)
  ultimately have "unat (clock (delay 50 s) - st) = unat x + 50"
    by (simp only:)
  moreover from Suc.prems have "unat x + 50 * Suc k = 4000"
    by (simp only: x_def)
  ultimately have "unat (clock (delay 50 s) - st) + 50 * k = 4000"
    by simp
  then have "simulateHardShutdown_wait st (delay 50 s) =
      (delay 50 s)\<lparr>clock := clock (delay 50 s) + 50 * of_nat k,
        trace := trace (delay 50 s) @ replicate k (Delay 50)\<rparr>"
    by (rule Suc.IH)
  with lt show ?case
    by (simp add: simulateHardShutdown_wait.simps[of st s] delay_def replicate_app_Cons_same
        algebra_simps)
qed

lemma wait_full:
  "simulateHardShutdown_wait (clock s) s =
     s\<lparr>clock := clock s + 4000, trace := trace s @ replicate 80 (Delay 50)\<rparr>"
  using wait_steps[of s "clock s" 80] by simp


lemmas pin_defs = TRIGGER_PIN_def POWER_BTN_PIN_def LED_TRIGGER_STATE_def LED_PRESS_ACTIVE_def
  POWER_LED_PIN_def

lemma new_effects_append [simp]: "trace s' = trace s @ es \<Longrightarrow> new_effects s s' = es"
  by (simp add: new_effects_def)

lemma new_effects_same [simp]: "new_effects s s = []"
  by (simp add: new_effects_def)

lemma hardware_append [simp]: "hardware (xs @ ys) = hardware xs @ hardware ys"
  by (simp add: hardware_def)

lemma hardware_Nil [simp]: "hardware [] = []"
  by (simp add: hardware_def)

lemma hardware_Cons [simp]: "hardware (e # es) = (if is_serial e then hardware es else e # hardware es)"
  by (simp add: hardware_def)

lemma hardware_replicate_Delay [simp]: "hardware (replicate k (Delay d)) = replicate k (Delay d)"
  by (induction k) simp_all

lemma stable_events_append [simp]: "stable_events (xs @ ys) = stable_events xs @ stable_events ys"
  by (simp add: stable_events_def)

lemma stable_events_Nil [simp]: "stable_events [] = []"
  by (simp add: stable_events_def)

lemma stable_events_Cons [simp]: "stable_events (e # es) = stable_event e @ stable_events es"
  by (simp add: stable_events_def)

lemma stable_events_replicate_Delay [simp]: "stable_events (replicate k (Delay d)) = []"
  by (induction k) simp_all

lemma printed_counts_append [simp]: "printed_counts (xs @ ys) = printed_counts xs @ printed_counts ys"
  by (simp add: printed_counts_def)

lemma printed_counts_Nil [simp]: "printed_counts [] = []"
  by (simp add: printed_counts_def)

lemma printed_counts_Cons [simp]: "printed_counts (e # es) = printed_count e @ printed_counts es"
  by (simp add: printed_counts_def)

lemma printed_counts_replicate_Delay [simp]: "printed_counts (replicate k (Delay d)) = []"
  by (induction k) simp_all



lemma press_closed:
  "simulatePowerButtonPress s =
     s\<lparr>clock := clock s + 200,
       pin_modes := (pin_modes s)(POWER_BTN_PIN := INPUT),
       pin_levels := (pin_levels s)(POWER_BTN_PIN := False, LED_PRESS_ACTIVE := False),
       trace := trace s @ press_trace\<rparr>"
  by (simp add: simulatePowerButtonPress_def prim_defs press_trace_def action_sequence_def pin_defs)

lemma shutdown_closed:
  "simulateHardShutdown s =
     s\<lparr>clock := clock s + 4000,
       pin_modes := (pin_modes s)(POWER_BTN_PIN := INPUT),
       pin_levels := (pin_levels s)(POWER_BTN_PIN := False, LED_PRESS_ACTIVE := False),
       trace := trace s @ shutdown_trace\<rparr>"
proof -
  define s1 where "s1 = digitalWrite POWER_BTN_PIN False
      (pinMode POWER_BTN_PIN OUTPUT (digitalWrite LED_PRESS_ACTIVE True s))"
  have "simulateHardShutdown s =
      Serial_println ''Hard shutdown complete.''
        (digitalWrite LED_PRESS_ACTIVE False
          (pinMode POWER_BTN_PIN INPUT (simulateHardShutdown_wait (clock s1) s1)))"
    by (simp add: simulateHardShutdown_def s1_def millis_def Let_def)
  also have "\<dots> = Serial_println ''Hard shutdown complete.''
        (digitalWrite LED_PRESS_ACTIVE False
          (pinMode POWER_BTN_PIN INPUT
             (s1\<lparr>clock := clock s1 + 4000, trace := trace s1 @ replicate 80 (Delay 50)\<rparr>)))"
    by (simp only: wait_full)
  also have "\<dots> = s\<lparr>clock := clock s + 4000,
       pin_modes := (pin_modes s)(POWER_BTN_PIN := INPUT),
       pin_levels := (pin_levels s)(POWER_BTN_PIN := False, LED_PRESS_ACTIVE := False),
       trace := trace s @ shutdown_trace\<rparr>"
    by (simp add: s1_def prim_defs shutdown_trace_def action_sequence_def pin_defs)
  finally show ?thesis .
qed


lemma hardware_press_trace: "hardware press_trace = action_sequence [Delay 200]"
  by (simp add: press_trace_def action_sequence_def)

lemma hardware_shutdown_trace: "hardware shutdown_trace = action_sequence (replicate 80 (Delay 50))"
  by (simp add: shutdown_trace_def action_sequence_def)

lemma stable_events_press_trace [simp]: "stable_events press_trace = []"
  by (simp add: press_trace_def action_sequence_def pin_defs)

lemma stable_events_shutdown_trace [simp]: "stable_events shutdown_trace = []"
  by (simp add: shutdown_trace_def action_sequence_def pin_defs)

lemma printed_counts_press_trace [simp]: "printed_counts press_trace = []"
  by (simp add: press_trace_def action_sequence_def)

lemma printed_counts_shutdown_trace [simp]: "printed_counts shutdown_trace = []"
  by (simp add: shutdown_trace_def action_sequence_def)



lemmas test_defs = expired_def next_count_def burst_def commits_def millis_def
  DEBOUNCE_MS_def RAPID_CHANGE_WINDOW_MS_def MIN_RAPID_CHANGES_TRIGGER_def
  MAX_RAPID_CHANGES_TRIGGER_def

lemma track_closed:
  "trackRapidChanges s =
    (if burst s
     then s\<lparr>clock := clock s + 4000,
            pin_modes := (pin_modes s)(POWER_BTN_PIN := INPUT),
            pin_levels := (pin_levels s)(POWER_BTN_PIN := False, LED_PRESS_ACTIVE := False),
            trace := trace s @ track_trace (next_count s) True,
            rapidChangeCount := 0,
            firstChangeInWindow := (if expired s then clock s else firstChangeInWindow s)\<rparr>
     else s\<lparr>trace := trace s @ track_trace (next_count s) False,
            rapidChangeCount := next_count s,
            firstChangeInWindow := (if expired s then clock s else firstChangeInWindow s)\<rparr>)"
  by (auto simp add: trackRapidChanges_def shutdown_closed Let_def prim_defs track_trace_def
      test_defs)

lemma loop_closed:
  "loop r s =
     (if commits r s
      then delay 10 (simulatePowerButtonPress (trackRapidChanges
             (committed r s)))
      else delay 10 (debounced r s))"
  by (auto simp add: loop_def Let_def test_defs debounced_def committed_def prim_defs)

lemma loop_basic_closed:
  "loop_basic r s =
     (if commits r s
      then delay 10 (simulatePowerButtonPress 
             (committed r s))
      else delay 10 (debounced r s))"
  by (auto simp add: loop_basic_def Let_def test_defs debounced_def committed_def prim_defs)

lemma loop_verified_closed:
  "loop_verified r p s =
     (if commits r s
      then delay 10 (handleTriggerChange r p
             (committed r s))
      else delay 10 (debounced r s))"
  by (auto simp add: loop_verified_def Let_def test_defs debounced_def committed_def prim_defs)



lemma press_fields [simp]:
  "lastReading (simulatePowerButtonPress s) = lastReading s"
  "lastChangeTime (simulatePowerButtonPress s) = lastChangeTime s"
  "stableTriggerState (simulatePowerButtonPress s) = stableTriggerState s"
  "rapidChangeCount (simulatePowerButtonPress s) = rapidChangeCount s"
  "firstChangeInWindow (simulatePowerButtonPress s) = firstChangeInWindow s"
  "trace (simulatePowerButtonPress s) = trace s @ press_trace"
  "clock (simulatePowerButtonPress s) = clock s + 200"
  "pin_modes (simulatePowerButtonPress s) = (pin_modes s)(POWER_BTN_PIN := INPUT)"
  "pin_levels (simulatePowerButtonPress s) =
     (pin_levels s)(POWER_BTN_PIN := False, LED_PRESS_ACTIVE := False)"
  by (simp_all add: press_closed)

lemma delay_fields [simp]:
  "lastReading (delay d s) = lastReading s"
  "lastChangeTime (delay d s) = lastChangeTime s"
  "stableTriggerState (delay d s) = stableTriggerState s"
  "rapidChangeCount (delay d s) = rapidChangeCount s"
  "firstChangeInWindow (delay d s) = firstChangeInWindow s"
  "trace (delay d s) = trace s @ [Delay d]"
  "clock (delay d s) = clock s + d"
  "pin_modes (delay d s) = pin_modes s"
  "pin_levels (delay d s) = pin_levels s"
  by (simp_all add: delay_def)




lemma track_fields [simp]:
  "lastReading (trackRapidChanges s) = lastReading s"
  "lastChangeTime (trackRapidChanges s) = lastChangeTime s"
  "stableTriggerState (trackRapidChanges s) = stableTriggerState s"
  "rapidChangeCount (trackRapidChanges s) = (if burst s then 0 else next_count s)"
  "firstChangeInWindow (trackRapidChanges s) = (if expired s then clock s else firstChangeInWindow s)"
  "trace (trackRapidChanges s) = trace s @ track_trace (next_count s) (burst s)"
  "clock (trackRapidChanges s) = (if burst s then clock s + 4000 else clock s)"
  "pin_modes (trackRapidChanges s) =
     (if burst s then (pin_modes s)(POWER_BTN_PIN := INPUT) else pin_modes s)"
  "pin_levels (trackRapidChanges s) =
     (if burst s then (pin_levels s)(POWER_BTN_PIN := False, LED_PRESS_ACTIVE := False)
      else pin_levels s)"
  by (simp_all add: track_closed)

lemma expired_no_burst: "expired s \<Longrightarrow> \<not> burst s"
  by (simp add: burst_def next_count_def MIN_RAPID_CHANGES_TRIGGER_def)

lemma stable_events_track_trace [simp]: "stable_events (track_trace c b) = []"
  by (simp add: track_trace_def)

lemma stable_events_commit_trace [simp]: "stable_events (commit_trace r) = [r]"
  by (simp add: commit_trace_def)

lemma committed_fields [simp]:
  "lastReading (committed r s) = lastReading s"
  "lastChangeTime (committed r s) = lastChangeTime s"
  "stableTriggerState (committed r s) = r"
  "rapidChangeCount (committed r s) = rapidChangeCount s"
  "firstChangeInWindow (committed r s) = firstChangeInWindow s"
  "trace (committed r s) = trace s @ commit_trace r"
  "clock (committed r s) = clock s"
  "pin_modes (committed r s) = pin_modes s"
  "pin_levels (committed r s) = (pin_levels s)(LED_TRIGGER_STATE := r)"
  by (simp_all add: committed_def commit_trace_def)

lemma debounced_fields [simp]:
  "lastReading (debounced r s) = r"
  "lastChangeTime (debounced r s) = (if r \<noteq> lastReading s then clock s else lastChangeTime s)"
  "stableTriggerState (debounced r s) = stableTriggerState s"
  "rapidChangeCount (debounced r s) = rapidChangeCount s"
  "firstChangeInWindow (debounced r s) = firstChangeInWindow s"
  "trace (debounced r s) = trace s"
  "clock (debounced r s) = clock s"
  "pin_modes (debounced r s) = pin_modes s"
  "pin_levels (debounced r s) = pin_levels s"
  by (simp_all add: debounced_def millis_def)

lemma tests_cong:
  assumes "clock s' = clock s" "firstChangeInWindow s' = firstChangeInWindow s"
    "rapidChangeCount s' = rapidChangeCount s"
  shows "expired s' = expired s" "next_count s' = next_count s" "burst s' = burst s"
  using assms by (simp_all add: expired_def next_count_def burst_def millis_def)

lemma tests_committed [simp]:
  "expired (committed r s) = expired s"
  "next_count (committed r s) = next_count s"
  "burst (committed r s) = burst s"
  by (rule tests_cong; simp)+

lemma loop_debounce:
  "lastReading (loop r s) = r \<and>
   lastChangeTime (loop r s) = (if r \<noteq> lastReading s then clock s else lastChangeTime s) \<and>
   stableTriggerState (loop r s) = (if commits r s then r else stableTriggerState s) \<and>
   stable_events (new_effects s (loop r s)) = (if commits r s then [r] else [])"
proof (cases "commits r s")
  case True
  then show ?thesis
    by (simp add: loop_closed) (simp add: commits_def)
next
  case False
  then show ?thesis
    by (simp add: loop_closed)
qed

lemma loop_basic_debounce:
  "lastReading (loop_basic r s) = r \<and>
   lastChangeTime (loop_basic r s) = (if r \<noteq> lastReading s then clock s else lastChangeTime s) \<and>
   stableTriggerState (loop_basic r s) = (if commits r s then r else stableTriggerState s) \<and>
   stable_events (new_effects s (loop_basic r s)) = (if commits r s then [r] else [])"
proof (cases "commits r s")
  case True
  then show ?thesis
    by (simp add: loop_basic_closed) (simp add: commits_def)
next
  case False
  then show ?thesis
    by (simp add: loop_basic_closed)
qed




lemma hardware_track_trace [simp]:
  "hardware (track_trace c fired) =
     (if fired then action_sequence (replicate 80 (Delay 50)) else [])"
  by (simp add: track_trace_def hardware_shutdown_trace)

lemma printed_counts_track_trace [simp]: "printed_counts (track_trace c fired) = [sint c]"
  by (simp add: track_trace_def)

lemma action_sequence_not_Nil [simp]: "action_sequence hold \<noteq> []" "[] \<noteq> action_sequence hold"
  by (simp_all add: action_sequence_def)

lemma held_ms_append [simp]: "held_ms (xs @ ys) = held_ms xs + held_ms ys"
  by (induction xs rule: held_ms.induct) simp_all

lemma held_ms_replicate [simp]: "held_ms (replicate k (Delay d)) = k * unat d"
  by (induction k) simp_all

lemma held_ms_action_sequence [simp]: "held_ms (action_sequence hold) = held_ms hold"
  by (simp add: action_sequence_def)

lemma handle_closed:
  "handleTriggerChange n p s =
     (if n \<noteq> p then simulatePowerButtonPress s
      else Serial_println (if n then ''PC is already ON, no action needed.''
                           else ''PC is already OFF, no action needed.'') s)"
  by (auto simp add: handleTriggerChange_def)

lemma hardware_commit_trace [simp]:
  "hardware (commit_trace r) = [DigitalWrite LED_TRIGGER_STATE r]"
  by (simp add: commit_trace_def)

lemma action_sequences_differ: "action_sequence [Delay 200] \<noteq> action_sequence (replicate 80 (Delay 50))"
  by (simp add: action_sequence_def numeral_eq_Suc)

subsection \<open>Reachable states\<close>

lemma setup_closed:
  "sketch_setup r s =
     s\<lparr>clock := clock s + 1000,
       pin_modes := (pin_modes s)(TRIGGER_PIN := INPUT_PULLUP, POWER_BTN_PIN := INPUT,
          LED_TRIGGER_STATE := OUTPUT, LED_PRESS_ACTIVE := OUTPUT),
       pin_levels := (pin_levels s)(LED_PRESS_ACTIVE := False, LED_TRIGGER_STATE := r),
       trace := trace s @ setup_trace r,
       lastReading := r, stableTriggerState := r, lastChangeTime := clock s + 1000\<rparr>"
  by (simp add: sketch_setup_def prim_defs setup_trace_def pin_defs Let_def)

lemma setup_fields [simp]:
  "lastReading (sketch_setup r s) = r"
  "lastChangeTime (sketch_setup r s) = clock s + 1000"
  "stableTriggerState (sketch_setup r s) = r"
  "rapidChangeCount (sketch_setup r s) = rapidChangeCount s"
  "firstChangeInWindow (sketch_setup r s) = firstChangeInWindow s"
  "trace (sketch_setup r s) = trace s @ setup_trace r"
  "clock (sketch_setup r s) = clock s + 1000"
  "pin_modes (sketch_setup r s) POWER_BTN_PIN = INPUT"
  "pin_levels (sketch_setup r s) LED_PRESS_ACTIVE = False"
  by (simp_all add: setup_closed pin_defs)

lemma printed_counts_setup_trace [simp]: "printed_counts (setup_trace r) = []"
  by (simp add: setup_trace_def)

lemma printed_counts_commit_trace [simp]: "printed_counts (commit_trace r) = []"
  by (simp add: commit_trace_def)

lemma next_count_cases:
  assumes "count_ok s"
  shows "(next_count s = 1 \<or> next_count s = 2 \<or> next_count s = 3) \<and>
         burst s = (next_count s = 3)"
  using assms by (auto simp add: count_ok_def test_defs)

lemma track_count_ok: "count_ok s \<Longrightarrow> count_ok (trackRapidChanges s)"
  using next_count_cases[of s] by (auto simp add: count_ok_def)

lemma loop_count:
  "rapidChangeCount (loop r s) =
     (if commits r s then rapidChangeCount (trackRapidChanges s) else rapidChangeCount s)"
  by (simp add: loop_closed)

lemma loop_count_ok: "count_ok s \<Longrightarrow> count_ok (loop r s)"
  using track_count_ok[of s] by (simp add: count_ok_def loop_count)

lemma reach_count_ok: "reach s \<Longrightarrow> count_ok s"
proof (induction rule: reach.induct)
  case (reach_setup s r)
  then show ?case by (simp add: count_ok_def power_on_def)
next
  case (reach_loop s r)
  from reach_loop.IH show ?case by (rule loop_count_ok)
next
  case (reach_track s)
  from reach_track.IH show ?case by (rule track_count_ok)
next
  case (reach_time s t)
  then show ?case by (simp add: count_ok_def)
qed

lemma loop_printed:
  "printed_counts (trace (loop r s)) =
     printed_counts (trace s) @ (if commits r s then [sint (next_count s)] else [])"
  by (simp add: loop_closed)

lemma reach_printed: "reach s \<Longrightarrow> set (printed_counts (trace s)) \<subseteq> {1, 2, 3}"
proof (induction rule: reach.induct)
  case (reach_setup s r)
  then show ?case by (simp add: power_on_def)
next
  case (reach_loop s r)
  from reach_loop.hyps have "count_ok s" by (rule reach_count_ok)
  then have "sint (next_count s) \<in> {1, 2, 3}"
    using next_count_cases[of s] by auto
  with reach_loop.IH show ?case by (auto simp add: loop_printed)
next
  case (reach_track s)
  from reach_track.hyps have "count_ok s" by (rule reach_count_ok)
  then have "sint (next_count s) \<in> {1, 2, 3}"
    using next_count_cases[of s] by auto
  with reach_track.IH show ?case by simp
next
  case (reach_time s t)
  then show ?case by simp
qed

lemma upto_same:
  assumes "count_ok s" and "3 \<le> sint mx"
  shows "trackRapidChanges_upto mx s = trackRapidChanges s"
proof -
  define s3 where "s3 =
    Serial_println_int (sint (next_count s))
      (Serial_print ''Rapid changes so far: ''
        (if expired s then s\<lparr>rapidChangeCount := 1, firstChangeInWindow := millis s\<rparr>
         else s\<lparr>rapidChangeCount := rapidChangeCount s + 1\<rparr>))"
  define fire where "fire = (\<lambda>s. (simulateHardShutdown
      (Serial_println ''TRIGGERING HARD SHUTDOWN (rapid toggles detected)...'' s))
        \<lparr>rapidChangeCount := 0\<rparr>)"
  have c3: "rapidChangeCount s3 = next_count s"
    by (simp add: s3_def next_count_def Serial_println_int_def Serial_print_def)
  have u: "trackRapidChanges_upto mx s =
      (if sint (next_count s) \<ge> sint MIN_RAPID_CHANGES_TRIGGER \<and> sint (next_count s) \<le> sint mx
       then fire s3 else s3)"
    unfolding c3 [symmetric]
    by (simp add: trackRapidChanges_upto_def Let_def s3_def fire_def expired_def next_count_def
        Serial_println_int_def Serial_print_def)
  have v: "trackRapidChanges s =
      (if sint (next_count s) \<ge> sint MIN_RAPID_CHANGES_TRIGGER
          \<and> sint (next_count s) \<le> sint MAX_RAPID_CHANGES_TRIGGER
       then fire s3 else s3)"
    unfolding c3 [symmetric]
    by (simp add: trackRapidChanges_def Let_def s3_def fire_def expired_def next_count_def
        Serial_println_int_def Serial_print_def)
  from assms(1) have "next_count s = 1 \<or> next_count s = 2 \<or> next_count s = 3"
    using next_count_cases by blast
  then have "(sint (next_count s) \<ge> sint MIN_RAPID_CHANGES_TRIGGER \<and> sint (next_count s) \<le> sint mx)
     = (sint (next_count s) \<ge> sint MIN_RAPID_CHANGES_TRIGGER
         \<and> sint (next_count s) \<le> sint MAX_RAPID_CHANGES_TRIGGER)"
    using assms(2) by (auto simp add: MIN_RAPID_CHANGES_TRIGGER_def MAX_RAPID_CHANGES_TRIGGER_def)
  then show ?thesis
    by (simp only: u v)
qed

lemma line_safe_append:
  "line_safe st (xs @ ys) = (line_safe st xs \<and> line_safe (line_run xs st) ys)"
proof (induction xs arbitrary: st)
  case Nil
  then show ?case by (cases st; cases ys) auto
next
  case (Cons e xs)
  then show ?case by (cases st) simp
qed

lemma line_run_append [simp]: "line_run (xs @ ys) st = line_run ys (line_run xs st)"
  by (induction xs arbitrary: st) simp_all

lemma line_run_delays [simp]: "line_run (replicate k (Delay d)) st = st"
  by (induction k) simp_all

lemma line_safe_delays [simp]: "line_safe (driven, active) (replicate k (Delay d)) = (driven \<longrightarrow> active)"
  by (induction k) auto

lemma line_action_sequence:
  "line_safe (False, False) (action_sequence (replicate k (Delay d)))"
  "line_run (action_sequence (replicate k (Delay d))) (False, False) = (False, False)"
  by (simp_all add: action_sequence_def line_safe_append pin_defs)

lemma line_press_trace:
  "line_safe (False, False) press_trace"
  "line_run press_trace (False, False) = (False, False)"
  using line_action_sequence[of 1 200]
  by (simp_all add: press_trace_def line_safe_append)

lemma line_shutdown_trace:
  "line_safe (False, False) shutdown_trace"
  "line_run shutdown_trace (False, False) = (False, False)"
  using line_action_sequence[of 80 50]
  by (simp_all add: shutdown_trace_def line_safe_append)

lemma line_track_trace:
  "line_safe (False, False) (track_trace c fired)"
  "line_run (track_trace c fired) (False, False) = (False, False)"
  using line_shutdown_trace
  by (simp_all add: track_trace_def)

lemma line_commit_trace:
  "line_safe (False, False) (commit_trace r)"
  "line_run (commit_trace r) (False, False) = (False, False)"
  by (simp_all add: commit_trace_def pin_defs)

lemma loop_trace:
  "trace (loop r s) = trace s @
     (if commits r s
      then commit_trace r @ track_trace (next_count s) (burst s) @ press_trace @ [Delay 10]
      else [Delay 10])"
  by (simp add: loop_closed)

lemma line_loop: "line_safe (False, False) (new_effects s (loop r s))"
  by (simp add: loop_trace line_safe_append line_commit_trace line_track_trace line_press_trace)

lemma loop_released:
  assumes "pin_modes s POWER_BTN_PIN = INPUT" and "pin_levels s LED_PRESS_ACTIVE = False"
  shows "pin_modes (loop r s) POWER_BTN_PIN = INPUT \<and> pin_levels (loop r s) LED_PRESS_ACTIVE = False"
  using assms by (simp add: loop_closed)

lemma track_released:
  assumes "pin_modes s POWER_BTN_PIN = INPUT" and "pin_levels s LED_PRESS_ACTIVE = False"
  shows "pin_modes (trackRapidChanges s) POWER_BTN_PIN = INPUT
     \<and> pin_levels (trackRapidChanges s) LED_PRESS_ACTIVE = False"
  using assms by simp

lemma reach_released:
  "reach s \<Longrightarrow> pin_modes s POWER_BTN_PIN = INPUT \<and> pin_levels s LED_PRESS_ACTIVE = False"
proof (induction rule: reach.induct)
  case (reach_setup s r)
  then show ?case by simp
next
  case (reach_loop s r)
  from reach_loop.IH show ?case by (intro loop_released) simp_all
next
  case (reach_track s)
  from reach_track.IH show ?case by (intro track_released) simp_all
next
  case (reach_time s t)
  then show ?case by simp
qed

subsection \<open>Runs of the debouncer\<close>

lemma loop_basic_trace:
  "trace (loop_basic r s) = trace s @
     (if commits r s then commit_trace r @ press_trace @ [Delay 10] else [Delay 10])"
  by (simp add: loop_basic_closed)

lemma debounce_step_loop: "debounce_step loop"
  unfolding debounce_step_def
proof (intro allI conjI)
  fix r s
  show "\<exists>es. trace (loop r s) = trace s @ es \<and> stable_events es = (if commits r s then [r] else [])"
    by (simp add: loop_trace)
qed (simp_all add: loop_debounce)

lemma debounce_step_loop_basic: "debounce_step loop_basic"
  unfolding debounce_step_def
proof (intro allI conjI)
  fix r s
  show "\<exists>es. trace (loop_basic r s) = trace s @ es \<and>
      stable_events es = (if commits r s then [r] else [])"
    by (simp add: loop_basic_trace)
qed (simp_all add: loop_basic_debounce)

lemma step_fields:
  assumes "debounce_step tick"
  shows "lastReading (tick r s) = r"
    and "lastChangeTime (tick r s) = (if r \<noteq> lastReading s then clock s else lastChangeTime s)"
    and "stableTriggerState (tick r s) = (if commits r s then r else stableTriggerState s)"
  using assms by (simp_all add: debounce_step_def)

lemma step_trace:
  assumes "debounce_step tick"
  obtains es where "trace (tick r s) = trace s @ es"
    and "stable_events es = (if commits r s then [r] else [])"
  using assms unfolding debounce_step_def by blast

lemma run_trace:
  assumes "debounce_step tick"
  shows "\<exists>es. trace (run_ticks tick ticks s) = trace s @ es"
proof (induction ticks arbitrary: s)
  case Nil
  then show ?case by simp
next
  case (Cons p ticks)
  obtain t r where p: "p = (t, r)" by (cases p)
  obtain es1 where "trace (tick r (s\<lparr>clock := of_nat t\<rparr>)) = trace s @ es1"
    using step_trace [OF assms, of r "s\<lparr>clock := of_nat t\<rparr>"] by auto
  moreover obtain es2 where "trace (run_ticks tick ticks (tick r (s\<lparr>clock := of_nat t\<rparr>)))
      = trace (tick r (s\<lparr>clock := of_nat t\<rparr>)) @ es2"
    using Cons.IH by blast
  ultimately show ?case by (simp add: p)
qed

lemma run_events_Cons:
  assumes "debounce_step tick"
  shows "stable_events (new_effects s (run_ticks tick ((t, r) # ticks) s)) =
     (if commits r (s\<lparr>clock := of_nat t\<rparr>) then [r] else []) @
     stable_events (new_effects (tick r (s\<lparr>clock := of_nat t\<rparr>))
        (run_ticks tick ticks (tick r (s\<lparr>clock := of_nat t\<rparr>))))"
proof -
  define s1 where "s1 = tick r (s\<lparr>clock := of_nat t\<rparr>)"
  obtain es1 where e1: "trace s1 = trace s @ es1"
    and v1: "stable_events es1 = (if commits r (s\<lparr>clock := of_nat t\<rparr>) then [r] else [])"
    using step_trace [OF assms, of r "s\<lparr>clock := of_nat t\<rparr>"] by (auto simp add: s1_def)
  obtain es2 where e2: "trace (run_ticks tick ticks s1) = trace s1 @ es2"
    using run_trace [OF assms] by blast
  have "new_effects s (run_ticks tick ticks s1) = es1 @ es2"
    by (simp add: e1 e2)
  moreover have "new_effects s1 (run_ticks tick ticks s1) = es2"
    by (simp add: e2)
  ultimately show ?thesis
    by (simp add: s1_def [symmetric] v1)
qed

lemma run_events_Nil [simp]: "stable_events (new_effects s (run_ticks tick [] s)) = []"
  by simp

lemma commits_at:
  assumes "e \<le> t" and "t < 2 ^ 32" and "lastChangeTime s = of_nat e"
  shows "commits r (s\<lparr>clock := of_nat t\<rparr>) =
     (r = lastReading s \<and> 50 < t - e \<and> r \<noteq> stableTriggerState s)"
proof -
  have "(of_nat t :: ulong) - of_nat e = of_nat (t - e)"
    using assms(1) by simp
  moreover have "unat (of_nat (t - e) :: ulong) = t - e"
    using assms(2) by (simp add: unat_of_nat)
  ultimately have "((50 :: ulong) < of_nat t - of_nat e) = (50 < t - e)"
    by (simp add: word_less_nat_alt)
  then show ?thesis
    by (simp add: commits_def millis_def DEBOUNCE_MS_def assms(3))
qed

lemma quiet_level: "edges p ticks = [] \<Longrightarrow> level_at_end p ticks = p"
proof (induction ticks arbitrary: p)
  case Nil
  then show ?case by (simp add: level_at_end_def)
next
  case (Cons q ticks)
  obtain t r where q: "q = (t, r)" by (cases q)
  from Cons.prems have "r = p" and "edges r ticks = []"
    by (auto simp add: q split: if_splits)
  with Cons.IH [of r] show ?case
    by (simp add: q level_at_end_def)
qed

lemma quiet_run:
  assumes "debounce_step tick"
  shows "lastReading s = stableTriggerState s \<Longrightarrow> edges (lastReading s) ticks = [] \<Longrightarrow>
     stable_events (new_effects s (run_ticks tick ticks s)) = []"
proof (induction ticks arbitrary: s)
  case Nil
  then show ?case by simp
next
  case (Cons q ticks)
  obtain t r where q: "q = (t, r)" by (cases q)
  define s1 where "s1 = tick r (s\<lparr>clock := of_nat t\<rparr>)"
  from Cons.prems have same: "r = lastReading s" and rest: "edges r ticks = []"
    by (auto simp add: q split: if_splits)
  from same Cons.prems(1) have nc: "\<not> commits r (s\<lparr>clock := of_nat t\<rparr>)"
    by (simp add: commits_def)
  have "lastReading s1 = r" "stableTriggerState s1 = stableTriggerState s"
    using nc by (simp_all add: s1_def step_fields [OF assms])
  with same Cons.prems(1) rest
  have "stable_events (new_effects s1 (run_ticks tick ticks s1)) = []"
    by (intro Cons.IH) simp_all
  with nc show ?case
    unfolding q run_events_Cons [OF assms] s1_def by simp
qed


lemma edges_times: "set (edges p ts) \<subseteq> set (map fst ts)"
  by (induction p ts rule: edges.induct) auto

lemma settling_run:
  assumes step: "debounce_step tick"
  shows "lastChangeTime s = of_nat e \<Longrightarrow> e \<le> lim \<Longrightarrow> lim \<le> e + 50 \<Longrightarrow>
     sorted (e # map fst ticks) \<Longrightarrow> \<forall>t \<in> set (map fst ticks). t < 2 ^ 32 \<Longrightarrow>
     \<forall>b \<in> set (edges (lastReading s) ticks). b \<le> lim \<Longrightarrow>
     stable_events (new_effects s (run_ticks tick ticks s)) = [] \<or>
     stable_events (new_effects s (run_ticks tick ticks s)) = [level_at_end (lastReading s) ticks]"
proof (induction ticks arbitrary: s e)
  case Nil
  then show ?case by simp
next
  case (Cons q ticks)
  obtain t r where q: "q = (t, r)" by (cases q)
  define s0 where "s0 = s\<lparr>clock := of_nat t\<rparr>"
  define s1 where "s1 = tick r s0"
  from Cons.prems(4) have et: "e \<le> t" and srt: "sorted (t # map fst ticks)"
    by (simp_all add: q)
  from Cons.prems(5) have tb: "t < 2 ^ 32" and rb: "\<forall>t \<in> set (map fst ticks). t < 2 ^ 32"
    by (simp_all add: q)
  have c: "commits r s0 = (r = lastReading s \<and> 50 < t - e \<and> r \<noteq> stableTriggerState s)"
    unfolding s0_def using et tb Cons.prems(1) by (rule commits_at)
  have ev: "stable_events (new_effects s (run_ticks tick (q # ticks) s)) =
      (if commits r s0 then [r] else []) @ stable_events (new_effects s1 (run_ticks tick ticks s1))"
    unfolding q s1_def s0_def by (rule run_events_Cons [OF step])
  have lv: "level_at_end (lastReading s) (q # ticks) = level_at_end r ticks"
    by (simp add: level_at_end_def q)
  have f1: "lastReading s1 = r"
    by (simp add: s1_def step_fields [OF step])
  show ?case
  proof (cases "r = lastReading s")
    case False
    with c have nc: "\<not> commits r s0" by blast
    from False have tl: "t \<le> lim" and re: "\<forall>b \<in> set (edges r ticks). b \<le> lim"
      using Cons.prems(6) by (simp_all add: q)
    from False have "lastChangeTime s1 = of_nat t"
      by (simp add: s1_def s0_def step_fields [OF step])
    moreover from Cons.prems(3) et have "lim \<le> t + 50" by simp
    ultimately have "stable_events (new_effects s1 (run_ticks tick ticks s1)) = [] \<or>
        stable_events (new_effects s1 (run_ticks tick ticks s1)) = [level_at_end (lastReading s1) ticks]"
      using tl srt rb re by (intro Cons.IH [of s1 t]) (simp_all add: f1)
    with nc show ?thesis
      by (simp add: ev lv f1)
  next
    case True
    then have re: "\<forall>b \<in> set (edges r ticks). b \<le> lim"
      using Cons.prems(6) by (simp add: q)
    show ?thesis
    proof (cases "commits r s0")
      case commit: True
      with c have "50 < t - e" by blast
      with Cons.prems(3) have late: "lim < t" by arith
      have "edges r ticks = []"
      proof (rule ccontr)
        assume "edges r ticks \<noteq> []"
        then obtain b where b: "b \<in> set (edges r ticks)"
          by (cases "edges r ticks") auto
        with edges_times have "b \<in> set (map fst ticks)" by blast
        with srt have "t \<le> b" by auto
        moreover from re b have "b \<le> lim" by blast
        ultimately show False using late by simp
      qed
      moreover have "stableTriggerState s1 = r"
        using commit by (simp add: s1_def step_fields [OF step])
      ultimately have "stable_events (new_effects s1 (run_ticks tick ticks s1)) = []"
        "level_at_end r ticks = r"
        using f1 by (simp_all add: quiet_run [OF step] quiet_level)
      with commit show ?thesis
        by (simp add: ev lv)
    next
      case nc: False
      from True nc have "lastChangeTime s1 = of_nat e"
        by (simp add: s1_def s0_def step_fields [OF step] Cons.prems(1))
      moreover from et srt have "sorted (e # map fst ticks)"
        by auto
      ultimately have "stable_events (new_effects s1 (run_ticks tick ticks s1)) = [] \<or>
          stable_events (new_effects s1 (run_ticks tick ticks s1)) = [level_at_end (lastReading s1) ticks]"
        using Cons.prems(2,3) rb re by (intro Cons.IH [of s1 e]) (simp_all add: f1)
      with nc show ?thesis
        by (simp add: ev lv f1)
    qed
  qed
qed

lemma chatter_run:
  assumes step: "debounce_step tick"
  shows "lastReading s = stableTriggerState s \<Longrightarrow> sorted (map fst ticks) \<Longrightarrow>
     \<forall>t \<in> set (map fst ticks). t < 2 ^ 32 \<Longrightarrow>
     within_debounce_interval (edges (lastReading s) ticks) \<Longrightarrow>
     stable_events (new_effects s (run_ticks tick ticks s)) = [] \<or>
     stable_events (new_effects s (run_ticks tick ticks s)) = [level_at_end (lastReading s) ticks]"
proof (induction ticks arbitrary: s)
  case Nil
  then show ?case by simp
next
  case (Cons q ticks)
  obtain t r where q: "q = (t, r)" by (cases q)
  define s0 where "s0 = s\<lparr>clock := of_nat t\<rparr>"
  define s1 where "s1 = tick r s0"
  from Cons.prems(2) have srt: "sorted (t # map fst ticks)"
    by (simp add: q)
  from Cons.prems(3) have tb: "t < 2 ^ 32" and rb: "\<forall>t \<in> set (map fst ticks). t < 2 ^ 32"
    by (simp_all add: q)
  have ev: "stable_events (new_effects s (run_ticks tick (q # ticks) s)) =
      (if commits r s0 then [r] else []) @ stable_events (new_effects s1 (run_ticks tick ticks s1))"
    unfolding q s1_def s0_def by (rule run_events_Cons [OF step])
  have lv: "level_at_end (lastReading s) (q # ticks) = level_at_end r ticks"
    by (simp add: level_at_end_def q)
  have f1: "lastReading s1 = r"
    by (simp add: s1_def step_fields [OF step])
  have nc: "\<not> commits r s0"
    using Cons.prems(1) by (auto simp add: commits_def s0_def)
  then have f2: "stableTriggerState s1 = stableTriggerState s"
    by (simp add: s1_def s0_def step_fields [OF step])
  have "stable_events (new_effects s1 (run_ticks tick ticks s1)) = [] \<or>
      stable_events (new_effects s1 (run_ticks tick ticks s1)) = [level_at_end (lastReading s1) ticks]"
  proof (cases "r = lastReading s")
    case True
    with Cons.prems(1,4) f1 f2 srt rb show ?thesis
      by (intro Cons.IH) (simp_all add: q)
  next
    case False
    then have "lastChangeTime s1 = of_nat t"
      by (simp add: s1_def s0_def step_fields [OF step])
    moreover from False Cons.prems(4) have "\<forall>b \<in> set (edges r ticks). b \<le> t + 50"
      by (simp add: q within_debounce_interval_def DEBOUNCE_MS_def)
    ultimately show ?thesis
      using srt rb by (intro settling_run [OF step, of s1 t "t + 50"]) (simp_all add: f1)
  qed
  with nc show ?case
    by (simp add: ev lv f1)
qed

lemma sampled_every_append:
  "sampled_every p t (xs @ ys) = sampled_every p t xs @ sampled_every p (t + p * length xs) ys"
  by (induction xs arbitrary: t) (simp_all add: algebra_simps)

lemma run_ticks_append: "run_ticks tick (a @ b) s = run_ticks tick b (run_ticks tick a s)"
  by (induction a arbitrary: s) auto

lemma run_events_append:
  assumes "debounce_step tick"
  shows "stable_events (new_effects s (run_ticks tick (a @ b) s)) =
     stable_events (new_effects s (run_ticks tick a s)) @
     stable_events (new_effects (run_ticks tick a s) (run_ticks tick b (run_ticks tick a s)))"
proof -
  obtain es1 where e1: "trace (run_ticks tick a s) = trace s @ es1"
    using run_trace [OF assms] by blast
  obtain es2 where e2: "trace (run_ticks tick b (run_ticks tick a s)) = trace (run_ticks tick a s) @ es2"
    using run_trace [OF assms] by blast
  have "new_effects s (run_ticks tick (a @ b) s) = es1 @ es2"
    by (simp add: run_ticks_append e1 e2)
  moreover have "new_effects s (run_ticks tick a s) = es1"
    by (simp add: e1)
  moreover have "new_effects (run_ticks tick a s) (run_ticks tick b (run_ticks tick a s)) = es2"
    by (simp add: e2)
  ultimately show ?thesis by simp
qed

lemma edges_constant: "edges v (sampled_every p t (replicate m v)) = []"
  by (induction m arbitrary: t) simp_all

lemma scenario_A_tail:
  assumes step: "debounce_step tick"
    and first: "stable_events (new_effects scenario_A_start
        (run_ticks tick (sampled_every 10 0 (scenario_A @ replicate 4 True)) scenario_A_start)) = [True]"
    and raw: "lastReading
        (run_ticks tick (sampled_every 10 0 (scenario_A @ replicate 4 True)) scenario_A_start) = True"
    and stable: "stableTriggerState
        (run_ticks tick (sampled_every 10 0 (scenario_A @ replicate 4 True)) scenario_A_start) = True"
  shows "stable_events (new_effects scenario_A_start
        (run_ticks tick (sampled_every 10 0 (scenario_A @ replicate (4 + m) True)) scenario_A_start))
     = [True]"
proof -
  define a where "a = sampled_every 10 0 (scenario_A @ replicate 4 True)"
  define b where "b = sampled_every 10 (0 + 10 * length (scenario_A @ replicate 4 True))
      (replicate m True)"
  have split: "sampled_every 10 0 (scenario_A @ replicate (4 + m) True) = a @ b"
    unfolding a_def b_def
    by (simp only: replicate_add append_assoc [symmetric] sampled_every_append)
  have "edges (lastReading (run_ticks tick a scenario_A_start)) b = []"
    unfolding raw [folded a_def] b_def by (rule edges_constant)
  moreover have "lastReading (run_ticks tick a scenario_A_start)
      = stableTriggerState (run_ticks tick a scenario_A_start)"
    using raw stable by (simp add: a_def)
  ultimately have "stable_events (new_effects (run_ticks tick a scenario_A_start)
      (run_ticks tick b (run_ticks tick a scenario_A_start))) = []"
    by (intro quiet_run [OF step])
  then show ?thesis
    unfolding split run_events_append [OF step] using first by (simp add: a_def)
qed

lemma expired_at:
  assumes "e \<le> t" and "t < 2 ^ 32" and "firstChangeInWindow s = of_nat e"
  shows "expired (s\<lparr>clock := of_nat t\<rparr>) = (2000 < t - e)"
proof -
  have "(of_nat t :: ulong) - of_nat e = of_nat (t - e)"
    using assms(1) by simp
  moreover have "unat (of_nat (t - e) :: ulong) = t - e"
    using assms(2) by (simp add: unat_of_nat)
  ultimately have "((2000 :: ulong) < of_nat t - of_nat e) = (2000 < t - e)"
    by (simp add: word_less_nat_alt)
  then show ?thesis
    by (simp add: expired_def millis_def RAPID_CHANGE_WINDOW_MS_def assms(3))
qed

text \<open>
  Three events of which the first opens a window (it finds the old window expired) and
  the others fall within the window length of it: the counter is 1, 2 and 3 at the
  three events, and the third fires the burst.
\<close>

lemma fresh_window_counts:
  assumes "expired (s\<lparr>clock := of_nat t1\<rparr>)"
    and "t1 \<le> t2" and "t2 \<le> t3" and "t3 \<le> t1 + 2000" and "t3 < 2 ^ 32"
  shows "printed_counts (new_effects s (feed [t1, t2, t3] s)) = [1, 2, 3]"
proof -
  define s1 where "s1 = trackRapidChanges (s\<lparr>clock := of_nat t1\<rparr>)"
  define s2 where "s2 = trackRapidChanges (s1\<lparr>clock := of_nat t2\<rparr>)"
  define s3 where "s3 = trackRapidChanges (s2\<lparr>clock := of_nat t3\<rparr>)"
  from assms(1) have n1: "next_count (s\<lparr>clock := of_nat t1\<rparr>) = 1"
    and b1: "\<not> burst (s\<lparr>clock := of_nat t1\<rparr>)"
    by (simp_all add: next_count_def expired_no_burst)
  with assms(1) have f1: "firstChangeInWindow s1 = of_nat t1" "rapidChangeCount s1 = 1"
    "trace s1 = trace s @ track_trace 1 False"
    by (simp_all add: s1_def)
  have e2: "\<not> expired (s1\<lparr>clock := of_nat t2\<rparr>)"
    using assms by (subst expired_at [of t1]) (simp_all add: f1)
  then have n2: "next_count (s1\<lparr>clock := of_nat t2\<rparr>) = 2"
    by (simp add: next_count_def f1)
  then have b2: "\<not> burst (s1\<lparr>clock := of_nat t2\<rparr>)"
    by (simp add: burst_def MIN_RAPID_CHANGES_TRIGGER_def)
  from e2 n2 b2 have f2: "firstChangeInWindow s2 = of_nat t1" "rapidChangeCount s2 = 2"
    "trace s2 = trace s1 @ track_trace 2 False"
    by (simp_all add: s2_def f1)
  have e3: "\<not> expired (s2\<lparr>clock := of_nat t3\<rparr>)"
    using assms by (subst expired_at [of t1]) (simp_all add: f2)
  then have n3: "next_count (s2\<lparr>clock := of_nat t3\<rparr>) = 3"
    by (simp add: next_count_def f2)
  then have "trace s3 = trace s2 @ track_trace 3 (burst (s2\<lparr>clock := of_nat t3\<rparr>))"
    by (simp add: s3_def)
  then have "trace s3 = trace s @ track_trace 1 False @ track_trace 2 False
      @ track_trace 3 (burst (s2\<lparr>clock := of_nat t3\<rparr>))"
    by (simp add: f1 f2)
  moreover have "feed [t1, t2, t3] s = s3"
    by (simp add: s1_def s2_def s3_def)
  ultimately show ?thesis
    by simp
qed

subsection \<open>The debouncer step\<close>

text \<open>
  C1. One polling tick of the debouncer, in the burst-aware sketch (\<open>loop\<close>) and in the
  basic sketch (\<open>loop_basic\<close>), at time \<open>now\<close> with raw reading \<open>currentReading\<close>:
  the last raw reading becomes the current one; \<open>lastChangeTime\<close> becomes \<open>now\<close> when
  the reading differs from the last raw reading and is kept otherwise; and a new stable
  state is committed (the stable state becomes the current reading and one stable-change
  event with that level is emitted) exactly when \<open>now - lastChangeTime\<close>, with the
  value \<open>lastChangeTime\<close> has after that update, exceeds the debounce interval and the
  current reading differs from the stored stable state. In every other case no event is
  emitted and the stable state is unchanged.
\<close>

theorem debouncer_update_step:
  "(let now = millis s;
        changed = (currentReading \<noteq> lastReading s);
        changeTime = (if changed then now else lastChangeTime s);
        commit = (now - changeTime > DEBOUNCE_MS \<and> currentReading \<noteq> stableTriggerState s);
        updated = (\<lambda>s'.
          lastReading s' = currentReading \<and>
          lastChangeTime s' = changeTime \<and>
          stableTriggerState s' = (if commit then currentReading else stableTriggerState s) \<and>
          stable_events (new_effects s s') = (if commit then [currentReading] else []))
    in updated (loop currentReading s) \<and> updated (loop_basic currentReading s))"
proof -
  have "commits currentReading s =
      (clock s - (if currentReading \<noteq> lastReading s then clock s else lastChangeTime s) > 50
        \<and> currentReading \<noteq> stableTriggerState s)"
    by (simp add: test_defs)
  then show ?thesis
    using loop_debounce[of currentReading s] loop_basic_debounce[of currentReading s]
    by (simp add: Let_def millis_def DEBOUNCE_MS_def)
qed


subsection \<open>The burst classifier step\<close>

text \<open>
  C2. One call of \<^verbatim>\<open>trackRapidChanges\<close> at time \<open>now\<close>. If
  \<open>now - firstChangeInWindow\<close> exceeds the window length (2000 ms), the counter
  becomes 1, the window start becomes \<open>now\<close> and no burst is reported (no output
  action is performed). Otherwise the counter is incremented (the incremented value is
  the one printed and tested) and the window start is kept; if the incremented counter
  lies in the inclusive range from 3 to 6, the burst is reported (the hard shutdown is
  performed) and the counter is reset to 0; if not, nothing is reported and the counter
  keeps the incremented value.
\<close>

theorem burst_classifier_step:
  "(let now = millis s;
        s' = trackRapidChanges s;
        burst_reported = (hardware (new_effects s s') = action_sequence (replicate 80 (Delay 50)));
        nothing_reported = (hardware (new_effects s s') = [])
    in if now - firstChangeInWindow s > RAPID_CHANGE_WINDOW_MS
       then rapidChangeCount s' = 1 \<and> firstChangeInWindow s' = now \<and> nothing_reported
       else (let count = rapidChangeCount s + 1
             in printed_counts (new_effects s s') = [sint count] \<and>
                firstChangeInWindow s' = firstChangeInWindow s \<and>
                (if sint count \<ge> sint MIN_RAPID_CHANGES_TRIGGER
                    \<and> sint count \<le> sint MAX_RAPID_CHANGES_TRIGGER
                 then burst_reported \<and> rapidChangeCount s' = 0
                 else nothing_reported \<and> rapidChangeCount s' = count)))"
proof (cases "expired s")
  case True
  then have "\<not> burst s" by (rule expired_no_burst)
  with True show ?thesis
    by (simp add: Let_def next_count_def) (simp add: expired_def millis_def)
next
  case False
  then have nc: "next_count s = rapidChangeCount s + 1"
    by (simp add: next_count_def)
  have b: "burst s = (sint (rapidChangeCount s + 1) \<ge> sint MIN_RAPID_CHANGES_TRIGGER
      \<and> sint (rapidChangeCount s + 1) \<le> sint MAX_RAPID_CHANGES_TRIGGER)"
    by (simp add: burst_def nc)
  from False have w: "\<not> millis s - firstChangeInWindow s > RAPID_CHANGE_WINDOW_MS"
    by (simp add: expired_def)
  show ?thesis
  proof (cases "burst s")
    case True
    with False nc b w show ?thesis by (simp add: Let_def)
  next
    case nb: False
    with False nc b w show ?thesis by (auto simp add: Let_def)
  qed
qed


text \<open>
  C10. The frame of the classifier. When a qualifying burst fires (the call performs an
  output action), the counter is reset to 0 and no other global variable of the sketch
  changes: the window start, the last raw reading, the stable state and the time of the
  last raw change are kept, so that the window test of any later event, at any time
  \<open>t\<close>, is still made against the window start from before the burst. A call within
  the window (one that does not find the window expired) keeps the window start, whether
  or not it fires.
\<close>

theorem qualifying_burst_frame:
  "(let s' = trackRapidChanges s;
        fired = (hardware (new_effects s s') \<noteq> []);
        in_window = (\<not> millis s - firstChangeInWindow s > RAPID_CHANGE_WINDOW_MS)
    in (fired \<longrightarrow>
          rapidChangeCount s' = 0 \<and>
          firstChangeInWindow s' = firstChangeInWindow s \<and>
          lastReading s' = lastReading s \<and>
          stableTriggerState s' = stableTriggerState s \<and>
          lastChangeTime s' = lastChangeTime s \<and>
          (\<forall>t. expired (s'\<lparr>clock := t\<rparr>) =
                (t - firstChangeInWindow s > RAPID_CHANGE_WINDOW_MS))) \<and>
       (in_window \<longrightarrow> firstChangeInWindow s' = firstChangeInWindow s))"
proof -
  have "burst s \<Longrightarrow> \<not> expired s"
    using expired_no_burst by blast
  then show ?thesis
    by (auto simp add: Let_def expired_def millis_def)
qed



text \<open>A state with two events counted and the window open: the third event fires.\<close>

theorem qualifying_burst_frame_witness:
  "hardware (new_effects (boot\<lparr>rapidChangeCount := 2\<rparr>)
      (trackRapidChanges (boot\<lparr>rapidChangeCount := 2\<rparr>))) \<noteq> [] \<and>
   \<not> millis (boot\<lparr>rapidChangeCount := 2\<rparr>)
        - firstChangeInWindow (boot\<lparr>rapidChangeCount := 2\<rparr>) > RAPID_CHANGE_WINDOW_MS \<and>
   rapidChangeCount (trackRapidChanges (boot\<lparr>rapidChangeCount := 2\<rparr>)) = 0 \<and>
   firstChangeInWindow (trackRapidChanges (boot\<lparr>rapidChangeCount := 2\<rparr>)) = 0"
proof -
  have fired: "burst (boot\<lparr>rapidChangeCount := 2\<rparr>)"
    by (simp add: test_defs boot_def)
  have inside: "\<not> millis (boot\<lparr>rapidChangeCount := 2\<rparr>)
        - firstChangeInWindow (boot\<lparr>rapidChangeCount := 2\<rparr>) > RAPID_CHANGE_WINDOW_MS"
    by (simp add: test_defs boot_def)
  have start: "firstChangeInWindow (boot\<lparr>rapidChangeCount := 2\<rparr>) = 0"
    by (simp add: boot_def)
  from fired have "hardware (new_effects (boot\<lparr>rapidChangeCount := 2\<rparr>)
      (trackRapidChanges (boot\<lparr>rapidChangeCount := 2\<rparr>))) \<noteq> []"
    by simp
  with inside start show ?thesis
    using qualifying_burst_frame [of "boot\<lparr>rapidChangeCount := 2\<rparr>"]
    by (simp only: Let_def) simp
qed

subsection \<open>Dispatch\<close>

text \<open>
  C3. State-verified dispatch. \<^verbatim>\<open>handleTriggerChange\<close>, called with the new stable
  state and the level sampled from the power-LED pin, performs the momentary press
  (200 ms) if the new state is HIGH and the LED reads false, or the new state is LOW and
  the LED reads true, and no output action otherwise; what it performs is never the held
  shutdown. The polling loop of the state-verified sketch calls it on every committed
  stable change, with the new stable state, and on nothing else.
\<close>

theorem state_verified_dispatch:
  "(let press = ((newTriggerState \<and> \<not> powerLEDState) \<or> (\<not> newTriggerState \<and> powerLEDState));
        done = hardware (new_effects s (handleTriggerChange newTriggerState powerLEDState s))
    in done = (if press then action_sequence [Delay 200] else []) \<and>
       held_ms done = (if press then 200 else 0) \<and>
       done \<noteq> action_sequence (replicate 80 (Delay 50))) \<and>
   (let now = millis s;
        changeTime = (if currentReading \<noteq> lastReading s then now else lastChangeTime s);
        commit = (now - changeTime > DEBOUNCE_MS \<and> currentReading \<noteq> stableTriggerState s);
        press = ((currentReading \<and> \<not> powerLEDState) \<or> (\<not> currentReading \<and> powerLEDState))
    in hardware (new_effects s (loop_verified currentReading powerLEDState s)) =
         (if commit
          then DigitalWrite LED_TRIGGER_STATE currentReading #
               (if press then action_sequence [Delay 200] else [])
          else []) @ [Delay 10])"
proof -
  have c: "commits currentReading s =
      (clock s - (if currentReading \<noteq> lastReading s then clock s else lastChangeTime s) > 50
        \<and> currentReading \<noteq> stableTriggerState s)"
    by (simp add: test_defs)
  have 1: "hardware (new_effects s (handleTriggerChange n p s)) =
      (if n \<noteq> p then action_sequence [Delay 200] else [])" for n p s
    by (simp add: handle_closed hardware_press_trace Serial_println_def)
  have 2: "hardware (new_effects s (loop_verified currentReading powerLEDState s)) =
         (if commits currentReading s
          then DigitalWrite LED_TRIGGER_STATE currentReading #
               (if currentReading \<noteq> powerLEDState then action_sequence [Delay 200] else [])
          else []) @ [Delay 10]"
    by (simp add: loop_verified_closed handle_closed hardware_press_trace Serial_println_def)
  have 3: "((n \<and> \<not> p) \<or> (\<not> n \<and> p)) = (n \<noteq> p)" for n p :: bool
    by auto
  show ?thesis
    apply (simp only: Let_def 3 1 2)
    apply (simp only: c [symmetric] millis_def DEBOUNCE_MS_def)
    using action_sequences_differ
    apply simp
    done
qed



text \<open>
  C4. Burst-aware dispatch. A polling tick of the burst-aware sketch that commits a stable
  change shows the new state on the LED, then performs the held shutdown (line held for
  4000 ms) if and only if the classifier reports a qualifying burst for this change, and
  then, in every case, the momentary press (line held for 200 ms). A tick that does not
  commit performs no output action.
\<close>

theorem burst_aware_dispatch:
  "(let now = millis s;
        changeTime = (if currentReading \<noteq> lastReading s then now else lastChangeTime s);
        commit = (now - changeTime > DEBOUNCE_MS \<and> currentReading \<noteq> stableTriggerState s);
        count = (if now - firstChangeInWindow s > RAPID_CHANGE_WINDOW_MS then 1
                 else rapidChangeCount s + 1);
        qualifying = (sint count \<ge> sint MIN_RAPID_CHANGES_TRIGGER
                      \<and> sint count \<le> sint MAX_RAPID_CHANGES_TRIGGER);
        HeldShutdown = action_sequence (replicate 80 (Delay 50));
        MomentaryPress = action_sequence [Delay 200]
    in hardware (new_effects s (loop currentReading s)) =
         (if commit
          then [DigitalWrite LED_TRIGGER_STATE currentReading] @
               (if qualifying then HeldShutdown else []) @ MomentaryPress
          else []) @ [Delay 10] \<and>
       hardware (new_effects s (trackRapidChanges s)) = (if qualifying then HeldShutdown else []) \<and>
       held_ms HeldShutdown = 4000 \<and> held_ms MomentaryPress = 200)"
proof -
  have c: "(millis s - (if currentReading \<noteq> lastReading s then millis s else lastChangeTime s)
               > DEBOUNCE_MS \<and> currentReading \<noteq> stableTriggerState s)
           = commits currentReading s"
    by (simp add: test_defs)
  have q: "(sint (if millis s - firstChangeInWindow s > RAPID_CHANGE_WINDOW_MS then 1
                  else rapidChangeCount s + 1) \<ge> sint MIN_RAPID_CHANGES_TRIGGER
            \<and> sint (if millis s - firstChangeInWindow s > RAPID_CHANGE_WINDOW_MS then 1
                  else rapidChangeCount s + 1) \<le> sint MAX_RAPID_CHANGES_TRIGGER)
           = burst s"
    by (simp add: burst_def next_count_def expired_def)
  have "hardware (new_effects s (loop currentReading s)) =
         (if commits currentReading s
          then [DigitalWrite LED_TRIGGER_STATE currentReading] @
               (if burst s then action_sequence (replicate 80 (Delay 50)) else []) @
               action_sequence [Delay 200]
          else []) @ [Delay 10]"
    by (simp add: loop_closed hardware_press_trace)
  moreover have "hardware (new_effects s (trackRapidChanges s)) =
      (if burst s then action_sequence (replicate 80 (Delay 50)) else [])"
    by simp
  ultimately show ?thesis
    by (simp only: Let_def c q) simp
qed



subsection \<open>The counter bound\<close>

text \<open>
  C9. In every reachable state of the burst-aware sketch the counter
  \<^verbatim>\<open>rapidChangeCount\<close> is 0, 1, 2 or 3, and so is every value it has at the
  threshold test (the value printed by each call of the classifier, which is 1, 2 or 3):
  the burst fires and resets the counter as soon as it reaches the minimum threshold 3,
  so no value above 3 is ever reached. The upper threshold therefore never matters: the
  classifier with any upper threshold of at least 3 in place of 6 behaves the same in
  every reachable state.
\<close>

theorem counter_bound_invariant:
  assumes "reach s"
  shows "sint (rapidChangeCount s) \<in> {0, 1, 2, 3} \<and>
         set (printed_counts (trace s)) \<subseteq> {1, 2, 3} \<and>
         (\<forall>mx. sint MIN_RAPID_CHANGES_TRIGGER \<le> sint mx \<longrightarrow>
            trackRapidChanges_upto mx s = trackRapidChanges s)"
proof -
  from assms have ok: "count_ok s" by (rule reach_count_ok)
  then have "sint (rapidChangeCount s) \<in> {0, 1, 2, 3}"
    by (auto simp add: count_ok_def)
  moreover from assms have "set (printed_counts (trace s)) \<subseteq> {1, 2, 3}"
    by (rule reach_printed)
  moreover have "trackRapidChanges_upto mx s = trackRapidChanges s"
    if "sint MIN_RAPID_CHANGES_TRIGGER \<le> sint mx" for mx
    using ok that by (intro upto_same) (simp_all add: MIN_RAPID_CHANGES_TRIGGER_def)
  ultimately show ?thesis by blast
qed


text \<open>After \<^verbatim>\<open>setup\<close> and one event the counter is 1, and the classifier with
  upper threshold 3 does what the one with upper threshold 6 does.\<close>

theorem counter_bound_invariant_witness:
  "reach (trackRapidChanges (sketch_setup True boot)) \<and>
   sint (rapidChangeCount (trackRapidChanges (sketch_setup True boot))) = 1 \<and>
   sint (rapidChangeCount (trackRapidChanges (sketch_setup True boot))) \<in> {0, 1, 2, 3} \<and>
   sint MIN_RAPID_CHANGES_TRIGGER \<le> sint (3 :: cint) \<and>
   trackRapidChanges_upto 3 (trackRapidChanges (sketch_setup True boot)) =
     trackRapidChanges (trackRapidChanges (sketch_setup True boot))"
proof -
  have r: "reach (trackRapidChanges (sketch_setup True boot))"
    by (intro reach_track reach_setup) (simp add: power_on_def boot_def)
  have m: "sint MIN_RAPID_CHANGES_TRIGGER \<le> sint (3 :: cint)"
    by (simp add: MIN_RAPID_CHANGES_TRIGGER_def)
  have "next_count (sketch_setup True boot) = 1"
    by (simp add: test_defs boot_def)
  then have c: "sint (rapidChangeCount (trackRapidChanges (sketch_setup True boot))) = 1"
    by (simp add: burst_def MIN_RAPID_CHANGES_TRIGGER_def)
  from counter_bound_invariant [OF r] m
  have "trackRapidChanges_upto 3 (trackRapidChanges (sketch_setup True boot)) =
     trackRapidChanges (trackRapidChanges (sketch_setup True boot))"
    by blast
  with r m c show ?thesis by simp
qed

subsection \<open>Release of the output line\<close>

text \<open>
  C8. Both output actions, the momentary press and the hard shutdown, perform exactly
  this sequence of pin operations and delays: switch the press-active indicator on, make
  the power-button pin an output, write LOW to it, hold (one delay of 200 ms for the
  press; 80 delays of 50 ms, 4000 ms in all, for the hard shutdown), return the
  power-button pin to input mode, switch the indicator off. Consequently, in every
  reachable state of the burst-aware sketch (between two operations of the sketch) the
  power-button pin is in input mode and the indicator is off, and during every polling
  tick from such a state the pin is an output only while the indicator is on
  (\<open>line_safe\<close> replays the effects of the tick from the pin mode and the indicator
  level of the state).
\<close>

theorem output_line_release:
  "hardware (new_effects s (simulatePowerButtonPress s)) = action_sequence [Delay 200] \<and>
   hardware (new_effects s (simulateHardShutdown s)) = action_sequence (replicate 80 (Delay 50)) \<and>
   action_sequence [Delay 200] =
     [DigitalWrite LED_PRESS_ACTIVE True, PinMode POWER_BTN_PIN OUTPUT,
      DigitalWrite POWER_BTN_PIN False, Delay 200,
      PinMode POWER_BTN_PIN INPUT, DigitalWrite LED_PRESS_ACTIVE False] \<and>
   held_ms [Delay 200] = 200 \<and> held_ms (replicate 80 (Delay 50)) = 4000 \<and>
   clock (simulatePowerButtonPress s) = clock s + 200 \<and>
   clock (simulateHardShutdown s) = clock s + 4000 \<and>
   pin_modes (simulatePowerButtonPress s) POWER_BTN_PIN = INPUT \<and>
   pin_modes (simulateHardShutdown s) POWER_BTN_PIN = INPUT \<and>
   (reach s \<longrightarrow>
      pin_modes s POWER_BTN_PIN = INPUT \<and> pin_levels s LED_PRESS_ACTIVE = False \<and>
      (\<forall>r. line_safe (pin_modes s POWER_BTN_PIN = OUTPUT, pin_levels s LED_PRESS_ACTIVE)
             (new_effects s (loop r s))))"
proof -
  have "hardware (new_effects s (simulatePowerButtonPress s)) = action_sequence [Delay 200]"
    by (simp add: hardware_press_trace)
  moreover have "hardware (new_effects s (simulateHardShutdown s)) =
      action_sequence (replicate 80 (Delay 50))"
    by (simp add: shutdown_closed hardware_shutdown_trace)
  moreover have "action_sequence [Delay 200] =
     [DigitalWrite LED_PRESS_ACTIVE True, PinMode POWER_BTN_PIN OUTPUT,
      DigitalWrite POWER_BTN_PIN False, Delay 200,
      PinMode POWER_BTN_PIN INPUT, DigitalWrite LED_PRESS_ACTIVE False]"
    by (simp add: action_sequence_def)
  moreover have "held_ms [Delay 200] = 200" "held_ms (replicate 80 (Delay 50)) = 4000"
    by simp_all
  moreover have "clock (simulateHardShutdown s) = clock s + 4000"
    "pin_modes (simulateHardShutdown s) POWER_BTN_PIN = INPUT"
    by (simp_all add: shutdown_closed)
  moreover have "pin_modes s POWER_BTN_PIN = INPUT \<and> pin_levels s LED_PRESS_ACTIVE = False"
    if "reach s"
    using that by (rule reach_released)
  ultimately show ?thesis
    by (simp add: line_loop)
qed

text \<open>
  A reachable state in which the next tick acts: \<^verbatim>\<open>setup\<close> reads HIGH, the first
  tick reads LOW, 90 ms pass, and the tick that reads LOW again commits and presses.
\<close>

theorem output_line_release_witness:
  "reach ((loop False (sketch_setup True boot))\<lparr>clock := 1100\<rparr>) \<and>
   pin_modes ((loop False (sketch_setup True boot))\<lparr>clock := 1100\<rparr>) POWER_BTN_PIN = INPUT \<and>
   pin_levels ((loop False (sketch_setup True boot))\<lparr>clock := 1100\<rparr>) LED_PRESS_ACTIVE = False \<and>
   commits False ((loop False (sketch_setup True boot))\<lparr>clock := 1100\<rparr>) \<and>
   line_safe (pin_modes ((loop False (sketch_setup True boot))\<lparr>clock := 1100\<rparr>) POWER_BTN_PIN
                = OUTPUT,
              pin_levels ((loop False (sketch_setup True boot))\<lparr>clock := 1100\<rparr>) LED_PRESS_ACTIVE)
     (new_effects ((loop False (sketch_setup True boot))\<lparr>clock := 1100\<rparr>)
        (loop False ((loop False (sketch_setup True boot))\<lparr>clock := 1100\<rparr>)))"
proof -
  have r: "reach ((loop False (sketch_setup True boot))\<lparr>clock := 1100\<rparr>)"
    by (intro reach_time reach_loop reach_setup) (simp add: power_on_def boot_def)
  have "\<not> commits False (sketch_setup True boot)"
    by (simp add: commits_def)
  then have c: "commits False ((loop False (sketch_setup True boot))\<lparr>clock := 1100\<rparr>)"
    using loop_debounce [of False "sketch_setup True boot"]
    by (simp add: test_defs boot_def)
  from r c show ?thesis
    using output_line_release [of "(loop False (sketch_setup True boot))\<lparr>clock := 1100\<rparr>"]
    by blast
qed


subsection \<open>Chatter\<close>

text \<open>
  C7. Chatter rejection, for the burst-aware and the basic sketch. The debouncer starts
  at rest (the last raw reading is the stable state, as after \<^verbatim>\<open>setup\<close> and after
  every commit) and runs any sequence of polling ticks at non-decreasing times (below
  the wrap-around of the 32-bit clock). If all the raw-level transitions the ticks see
  lie within one debounce interval (50 ms) of each other, the whole run emits at most one
  stable-change event, and if it emits one, the level it reports is the raw level at the
  end of the run.
\<close>

theorem chatter_rejection:
  assumes "lastReading s = stableTriggerState s"
    and "sorted (map fst ticks)"
    and "\<forall>t \<in> set (map fst ticks). t < 2 ^ 32"
    and "within_debounce_interval (edges (lastReading s) ticks)"
  shows "(stable_events (new_effects s (run_ticks loop ticks s)) = [] \<or>
          stable_events (new_effects s (run_ticks loop ticks s)) =
            [level_at_end (lastReading s) ticks]) \<and>
         (stable_events (new_effects s (run_ticks loop_basic ticks s)) = [] \<or>
          stable_events (new_effects s (run_ticks loop_basic ticks s)) =
            [level_at_end (lastReading s) ticks])"
  using assms chatter_run [OF debounce_step_loop] chatter_run [OF debounce_step_loop_basic]
  by blast

text \<open>Three transitions within 20 ms, then the level LOW persists: one event, LOW.\<close>

theorem chatter_rejection_witness:
  "lastReading boot = stableTriggerState boot \<and>
   sorted (map fst (sampled_every 10 0
     [False, True, False, False, False, False, False, False, False])) \<and>
   edges (lastReading boot) (sampled_every 10 0
     [False, True, False, False, False, False, False, False, False]) = [0, 10, 20] \<and>
   within_debounce_interval [0, 10, 20] \<and>
   level_at_end (lastReading boot) (sampled_every 10 0
     [False, True, False, False, False, False, False, False, False]) = False \<and>
   stable_events (new_effects boot (run_ticks loop (sampled_every 10 0
     [False, True, False, False, False, False, False, False, False]) boot)) = [False] \<and>
   stable_events (new_effects boot (run_ticks loop_basic (sampled_every 10 0
     [False, True, False, False, False, False, False, False, False]) boot)) = [False]"
proof -
  define ticks where "ticks = sampled_every 10 0
     [False, True, False, False, False, False, False, False, False]"
  have rest: "lastReading boot = stableTriggerState boot"
    by (simp add: boot_def)
  have srt: "sorted (map fst ticks)"
    by (simp add: ticks_def)
  have bnd: "\<forall>t \<in> set (map fst ticks). t < 2 ^ 32"
    by (simp add: ticks_def)
  have edg: "edges (lastReading boot) ticks = [0, 10, 20]"
    by (simp add: ticks_def boot_def)
  have win: "within_debounce_interval [0, 10, 20]"
    by (simp add: within_debounce_interval_def DEBOUNCE_MS_def)
  have lvl: "level_at_end (lastReading boot) ticks = False"
    by (simp add: ticks_def level_at_end_def)
  have one: "stable_events (new_effects boot (run_ticks loop ticks boot)) \<noteq> []"
    "stable_events (new_effects boot (run_ticks loop_basic ticks boot)) \<noteq> []"
    unfolding ticks_def by code_simp+
  from win edg have "within_debounce_interval (edges (lastReading boot) ticks)"
    by simp
  from chatter_rejection [OF rest srt bnd this] one lvl
  have "stable_events (new_effects boot (run_ticks loop ticks boot)) = [False]"
    "stable_events (new_effects boot (run_ticks loop_basic ticks boot)) = [False]"
    by simp_all
  with rest srt edg win lvl show ?thesis
    unfolding ticks_def by blast
qed


subsection \<open>Scenario A\<close>

text \<open>
  C6 as amended. The raw samples LOW, LOW, HIGH, LOW, HIGH, HIGH, HIGH, taken every 10 ms
  from t = 0 by a debouncer initialised with LOW and a 50 ms debounce interval, followed
  by \<open>n\<close> further samples HIGH: the burst-aware and the basic sketch emit no
  stable-change event while \<open>n < 4\<close> (up to the sample at t = 90 ms) and exactly one
  event, reporting HIGH, for every \<open>n \<ge> 4\<close>. The event fires at the sample at
  t = 100 ms, the first at which HIGH has persisted for more than 50 ms since the last
  raw edge (seen at t = 40 ms).
\<close>

theorem scenario_A_debounce:
  "stable_events (new_effects scenario_A_start
     (run_ticks loop (sampled_every 10 0 (scenario_A @ replicate n True)) scenario_A_start))
     = (if 4 \<le> n then [True] else []) \<and>
   stable_events (new_effects scenario_A_start
     (run_ticks loop_basic (sampled_every 10 0 (scenario_A @ replicate n True)) scenario_A_start))
     = (if 4 \<le> n then [True] else [])"
proof (cases "4 \<le> n")
  case True
  then obtain m where n: "n = 4 + m"
    using le_Suc_ex by blast
  have "stable_events (new_effects scenario_A_start
        (run_ticks loop (sampled_every 10 0 (scenario_A @ replicate (4 + m) True)) scenario_A_start))
     = [True]"
    by (rule scenario_A_tail [OF debounce_step_loop]; code_simp)
  moreover have "stable_events (new_effects scenario_A_start
        (run_ticks loop_basic (sampled_every 10 0 (scenario_A @ replicate (4 + m) True))
          scenario_A_start)) = [True]"
    by (rule scenario_A_tail [OF debounce_step_loop_basic]; code_simp)
  ultimately show ?thesis
    using True by (simp add: n)
next
  case False
  then consider "n = 0" | "n = 1" | "n = 2" | "n = 3"
    by arith
  then show ?thesis
  proof cases
    case 1
    show ?thesis unfolding 1 by code_simp
  next
    case 2
    show ?thesis unfolding 2 by code_simp
  next
    case 3
    show ?thesis unfolding 3 by code_simp
  next
    case 4
    show ?thesis unfolding 4 by code_simp
  qed
qed


text \<open>
  C6 as stated fails. The last raw edge of scenario A is seen at t = 40 ms, so the first
  sample at which HIGH has persisted for at least 50 ms is the one at t = 90 ms. The run
  up to and including that sample emits no event, in either sketch: the test of the
  source is \<^verbatim>\<open>(now - lastChangeTime) > DEBOUNCE_MS\<close>, and 50 is not greater than 50.
\<close>

theorem scenario_A_fires_late:
  "edges False (sampled_every 10 0 scenario_A) = [20, 30, 40] \<and>
   map fst (sampled_every 10 0 (scenario_A @ [True, True, True])) =
     [0, 10, 20, 30, 40, 50, 60, 70, 80, 90] \<and>
   lastChangeTime (run_ticks loop (sampled_every 10 0 (scenario_A @ [True, True, True]))
      scenario_A_start) = 40 \<and>
   unat DEBOUNCE_MS \<le> 90 - 40 \<and>
   stable_events (new_effects scenario_A_start
     (run_ticks loop (sampled_every 10 0 (scenario_A @ [True, True, True])) scenario_A_start)) = [] \<and>
   stable_events (new_effects scenario_A_start
     (run_ticks loop_basic (sampled_every 10 0 (scenario_A @ [True, True, True])) scenario_A_start)) = []"
  by code_simp


subsection \<open>Burst-window counting\<close>

text \<open>
  C5 evaluated on the code. After power-on the window start is 0 and not the time of any
  change. Three stable changes at 1060, 1560 and 2060 ms on the clock (equal spacing, all
  within 2000 ms of the first) do not count 1, 2, 3: the third finds the window that
  started at 0 expired, the counter is 1 again, and no hard shutdown is performed. The
  same run through the whole sketch: \<^verbatim>\<open>setup\<close> reads HIGH, then 30 ticks read LOW,
  30 read HIGH and 7 read LOW; the commits happen at 1060, 1560 and 2060 ms, the counter
  printed is 1, 2, 1, and the clock at the end (2270 ms) leaves no room for a 4000 ms
  hold.
\<close>

theorem burst_window_counting_after_boot:
  "printed_counts (trace (feed [1060, 1560, 2060] boot)) = [1, 2, 1] \<and>
   hardware (trace (feed [1060, 1560, 2060] boot)) = [] \<and>
   clock (run_loop (replicate 6 False) (sketch_setup True boot)) = 1060 \<and>
   commits False (run_loop (replicate 6 False) (sketch_setup True boot)) \<and>
   clock (run_loop (replicate 30 False @ replicate 6 True) (sketch_setup True boot)) = 1560 \<and>
   commits True (run_loop (replicate 30 False @ replicate 6 True) (sketch_setup True boot)) \<and>
   clock (run_loop (replicate 30 False @ replicate 30 True @ replicate 6 False)
      (sketch_setup True boot)) = 2060 \<and>
   commits False (run_loop (replicate 30 False @ replicate 30 True @ replicate 6 False)
      (sketch_setup True boot)) \<and>
   printed_counts (trace (run_loop (replicate 30 False @ replicate 30 True @ replicate 7 False)
      (sketch_setup True boot))) = [1, 2, 1] \<and>
   clock (run_loop (replicate 30 False @ replicate 30 True @ replicate 7 False)
      (sketch_setup True boot)) = 2270"
  by code_simp


end
